theory Spec2Isabelle
  imports Complex_Main "HOL-Library.Word"
begin

unbundle bit_operations_syntax

section \<open>The stream consumer: \<^verbatim>\<open>src/dump/main.c\<close>\<close>

subsection \<open>Data\<close>

type_synonym byte = "8 word"

text \<open>
  \<^verbatim>\<open>frame_s\<close> (declared in \<^verbatim>\<open>libs/frame.h\<close>): the fields that \<^verbatim>\<open>_dump_sink\<close> reads.
  \<open>data\<close> is the whole allocated buffer, \<open>used\<close> the count of payload bytes in it;
  the sink keeps \<open>used\<close> within the buffer, and the consumer reads the first \<open>used\<close>
  bytes. The three timestamps are \<^verbatim>\<open>long double\<close> seconds, taken here as rationals.
\<close>

record frame_s =
  data :: "byte list"
  used :: nat
  width :: "32 word"
  height :: "32 word"
  format :: "32 word"
  stride :: "32 word"
  online :: bool
  grab_ts :: rat
  encode_begin_ts :: rat
  encode_end_ts :: rat

text \<open>\<^verbatim>\<open>FILE *\<close> values that \<^verbatim>\<open>output_fp\<close> can hold; \<^verbatim>\<open>NULL\<close> is \<open>None\<close>.\<close>

datatype file_ptr = Stdout | Stderr | File string

text \<open>
  What the consumer does to the outside world, in program order. Log lines other than the
  FPS publication go to the logging macros of \<^verbatim>\<open>libs/logging.h\<close> and are left out.
\<close>

datatype effect =
    Frame_init
  | Fopen string
  | Memsink_init string "32 word"
  | Memsink_client_get
  | Log_perf_fps "32 word"
  | Fprintf file_ptr string
  | Fwrite file_ptr "byte list"
  | Fflush file_ptr
  | Fclose file_ptr
  | Memsink_destroy
  | Frame_destroy
  | Puts string
  | Help file_ptr
  | Install_signal_handlers

text \<open>
  One pass through \<^verbatim>\<open>while (!stop)\<close> as the environment decides it: the value of the
  volatile flag at the loop test, the return code of \<^verbatim>\<open>memsink_client_get\<close>, the frame as
  that call left it, and the clock read by \<^verbatim>\<open>get_now_monotonic\<close>.
\<close>

record iteration =
  stop :: bool
  get_error :: int
  got_frame :: frame_s
  now :: rat

subsection \<open>Helpers that live outside the two source files\<close>

text \<open>
  Modelled from the spec: \<^verbatim>\<open>floor_ms\<close> (\<^verbatim>\<open>libs/tools.h\<close>) is "the floor (in whole seconds) of
  the observed frame's timestamp".
\<close>

definition floor_ms :: "rat \<Rightarrow> int" where
  "floor_ms t = \<lfloor>t\<rfloor>"

text \<open>Decimal digits, as \<^verbatim>\<open>%u\<close> and \<^verbatim>\<open>%zu\<close> print an unsigned value.\<close>

definition digit_char :: "nat \<Rightarrow> char" where
  "digit_char d = ''0123456789'' ! d"

fun show_nat :: "nat \<Rightarrow> string" where
  "show_nat n = (if n < 10 then [digit_char n] else show_nat (n div 10) @ [digit_char (n mod 10)])"

declare show_nat.simps [simp del]

text \<open>
  Modelled from the spec: \<^verbatim>\<open>base64_encode\<close> (\<^verbatim>\<open>libs/base64.c\<close>) "base64-encodes the
  payload": the standard alphabet, three bytes to four characters, \<open>=\<close> padding.
\<close>

definition b64_table :: string where
  "b64_table = ''ABCDEFGHIJKLMNOPQRSTUVWXYZabcdefghijklmnopqrstuvwxyz0123456789+/''"

definition b64_char :: "nat \<Rightarrow> char" where
  "b64_char i = b64_table ! (i mod 64)"

fun base64_encode :: "byte list \<Rightarrow> string" where
  "base64_encode [] = []"
| "base64_encode [a] =
     (let t = unat a * 65536
      in [b64_char (t div 262144), b64_char (t div 4096), CHR ''='', CHR ''=''])"
| "base64_encode [a, b] =
     (let t = unat a * 65536 + unat b * 256
      in [b64_char (t div 262144), b64_char (t div 4096), b64_char (t div 64), CHR ''=''])"
| "base64_encode (a # b # c # rest) =
     (let t = unat a * 65536 + unat b * 256 + unat c
      in [b64_char (t div 262144), b64_char (t div 4096), b64_char (t div 64), b64_char t]
         @ base64_encode rest)"

text \<open>The inverse reading of one character, and the decoder a reader of the records uses.\<close>

definition b64_value :: "char \<Rightarrow> nat option" where
  "b64_value c = map_of (zip b64_table [0..<64]) c"

definition b64_triple :: "nat \<Rightarrow> nat \<Rightarrow> nat \<Rightarrow> nat \<Rightarrow> nat" where
  "b64_triple x1 x2 x3 x4 = x1 * 262144 + x2 * 4096 + x3 * 64 + x4"

fun base64_decode :: "string \<Rightarrow> byte list option" where
  "base64_decode [] = Some []"
| "base64_decode (c1 # c2 # c3 # c4 # rest) =
     (if c3 = CHR ''='' \<and> c4 = CHR ''='' \<and> rest = [] then
        (case (b64_value c1, b64_value c2) of
           (Some x1, Some x2) \<Rightarrow> Some [of_nat (b64_triple x1 x2 0 0 div 65536)]
         | _ \<Rightarrow> None)
      else if c4 = CHR ''='' \<and> rest = [] then
        (case (b64_value c1, b64_value c2, b64_value c3) of
           (Some x1, Some x2, Some x3) \<Rightarrow>
             Some [of_nat (b64_triple x1 x2 x3 0 div 65536), of_nat (b64_triple x1 x2 x3 0 div 256)]
         | _ \<Rightarrow> None)
      else
        (case (b64_value c1, b64_value c2, b64_value c3, b64_value c4) of
           (Some x1, Some x2, Some x3, Some x4) \<Rightarrow>
             (case base64_decode rest of
                Some bs \<Rightarrow>
                  Some (of_nat (b64_triple x1 x2 x3 x4 div 65536)
                        # of_nat (b64_triple x1 x2 x3 x4 div 256)
                        # of_nat (b64_triple x1 x2 x3 x4) # bs)
              | None \<Rightarrow> None)
         | _ \<Rightarrow> None))"
| "base64_decode _ = None"

subsection \<open>The loop of \<^verbatim>\<open>_dump_sink\<close>\<close>

text \<open>The locals that live across iterations.\<close>

record loop_state =
  fps :: "32 word"
  fps_accum :: "32 word"
  fps_second :: int
  base64_data :: "string option"

definition loop_init :: loop_state where
  "loop_init = \<lparr>fps = 0, fps_accum = 0, fps_second = 0, base64_data = None\<rparr>"

text \<open>Lines 185--203: the FPS window, with the line it logs when a new second has come.\<close>

definition fps_window :: "loop_state \<Rightarrow> rat \<Rightarrow> loop_state \<times> effect list" where
  "fps_window st now_v =
     (let now_second = floor_ms now_v;
          (st1, es) =
            (if now_second \<noteq> fps_second st
             then (st\<lparr>fps := fps_accum st, fps_accum := 0, fps_second := now_second\<rparr>,
                   [Log_perf_fps (fps_accum st)])
             else (st, []))
      in (st1\<lparr>fps_accum := fps_accum st1 + 1\<rparr>, es))"

text \<open>
  The \<^verbatim>\<open>fprintf\<close> of lines 208--216. \<open>fmt_ts\<close> stands for the C library's \<^verbatim>\<open>%.3Lf\<close>
  conversion of a \<^verbatim>\<open>long double\<close>.
\<close>

definition json_head :: "(rat \<Rightarrow> string) \<Rightarrow> frame_s \<Rightarrow> string" where
  "json_head fmt_ts f =
     ''{\"size\": '' @ show_nat (used f)
     @ '', \"width\": '' @ show_nat (unat (width f))
     @ '', \"height\": '' @ show_nat (unat (height f)) @ '',''
     @ '' \"format\": '' @ show_nat (unat (format f))
     @ '', \"stride\": '' @ show_nat (unat (stride f))
     @ '', \"online\": '' @ show_nat (if online f then 1 else 0) @ '',''
     @ '' \"grab_ts\": '' @ fmt_ts (grab_ts f)
     @ '', \"encode_begin_ts\": '' @ fmt_ts (encode_begin_ts f)
     @ '', \"encode_end_ts\": '' @ fmt_ts (encode_end_ts f) @ '',''
     @ '' \"data\": \"''"

definition json_line :: "(rat \<Rightarrow> string) \<Rightarrow> frame_s \<Rightarrow> string \<Rightarrow> string" where
  "json_line fmt_ts f b64 = json_head fmt_ts f @ b64 @ ''\"}'' @ [CHR 0x0A]"

text \<open>Lines 205--221: what is written for one frame.\<close>

definition emit :: "(rat \<Rightarrow> string) \<Rightarrow> file_ptr option \<Rightarrow> bool \<Rightarrow> loop_state \<Rightarrow> frame_s
    \<Rightarrow> loop_state \<times> effect list" where
  "emit fmt_ts output_fp output_json st f =
     (case output_fp of
        None \<Rightarrow> (st, [])
      | Some fp \<Rightarrow>
          if output_json then
            (let b64 = base64_encode (take (used f) (data f))
             in (st\<lparr>base64_data := Some b64\<rparr>, [Fprintf fp (json_line fmt_ts f b64), Fflush fp]))
          else (st, [Fwrite fp (take (used f) (data f)), Fflush fp]))"

text \<open>
  Lines 182--225. The result is \<open>Some 0\<close> when the loop is left through its test,
  \<open>Some (-1)\<close> when it is left through \<^verbatim>\<open>goto error\<close>, and \<open>None\<close> when the iterations
  given are used up with the loop still running.
\<close>

fun dump_loop :: "(rat \<Rightarrow> string) \<Rightarrow> file_ptr option \<Rightarrow> bool \<Rightarrow> loop_state \<Rightarrow> iteration list
    \<Rightarrow> int option \<times> loop_state \<times> effect list" where
  "dump_loop fmt_ts output_fp output_json st [] = (None, st, [])"
| "dump_loop fmt_ts output_fp output_json st (it # its) =
     (if stop it then (Some 0, st, [])
      else if get_error it = 0 then
        (let (st1, es1) = fps_window st (now it);
             (st2, es2) = emit fmt_ts output_fp output_json st1 (got_frame it);
             (r, st3, es3) = dump_loop fmt_ts output_fp output_json st2 its
         in (r, st3, Memsink_client_get # es1 @ es2 @ es3))
      else if get_error it \<noteq> - 2 then (Some (- 1), st, [Memsink_client_get])
      else
        (let (r, st3, es3) = dump_loop fmt_ts output_fp output_json st its
         in (r, st3, Memsink_client_get # es3)))"

text \<open>Lines 233--248: the shared exit path.\<close>

definition cleanup :: "file_ptr option \<Rightarrow> bool \<Rightarrow> effect list" where
  "cleanup output_fp sink =
     (case output_fp of
        None \<Rightarrow> []
      | Some fp \<Rightarrow> if fp \<noteq> Stdout then [Fclose fp] else [])
     @ (if sink then [Memsink_destroy] else [])
     @ [Frame_destroy]"

text \<open>
  Lines 161--172: the output stream. \<open>fopen_ok\<close> says whether \<^verbatim>\<open>fopen\<close> returns a
  stream; \<open>Inl\<close> is \<^verbatim>\<open>goto error\<close>.
\<close>

definition open_output :: "bool \<Rightarrow> string option \<Rightarrow> (unit + file_ptr option) \<times> effect list" where
  "open_output fopen_ok output_path =
     (case output_path of
        None \<Rightarrow> (Inr None, [])
      | Some p \<Rightarrow>
          if p \<noteq> [] then
            (if p = ''-'' then (Inr (Some Stdout), [])
             else if fopen_ok then (Inr (Some (File p)), [Fopen p])
             else (Inl (), [Fopen p]))
          else (Inr None, []))"

text \<open>
  \<^verbatim>\<open>_dump_sink\<close>. \<open>memsink_ok\<close> says whether \<^verbatim>\<open>memsink_init\<close> returns a sink. The
  return value is \<open>None\<close> only when the iterations are used up before the loop ends;
  then the exit path has not run yet.
\<close>

definition dump_sink :: "(rat \<Rightarrow> string) \<Rightarrow> bool \<Rightarrow> bool \<Rightarrow> iteration list
    \<Rightarrow> string \<Rightarrow> 32 word \<Rightarrow> string option \<Rightarrow> bool \<Rightarrow> int option \<times> effect list" where
  "dump_sink fmt_ts fopen_ok memsink_ok its sink_name sink_timeout output_path output_json =
     (case open_output fopen_ok output_path of
        (Inl _, es0) \<Rightarrow> (Some (- 1), Frame_init # es0 @ cleanup None False)
      | (Inr output_fp, es0) \<Rightarrow>
          if \<not> memsink_ok then
            (Some (- 1),
             Frame_init # es0 @ [Memsink_init sink_name sink_timeout] @ cleanup output_fp False)
          else
            (case dump_loop fmt_ts output_fp output_json loop_init its of
               (r, st, es) \<Rightarrow>
                 (r, Frame_init # es0 @ [Memsink_init sink_name sink_timeout] @ es
                       @ (case r of None \<Rightarrow> [] | Some retval \<Rightarrow> cleanup output_fp True))))"

subsection \<open>\<^verbatim>\<open>main\<close>\<close>

text \<open>
  The options as \<^verbatim>\<open>getopt_long\<close> hands them over, one value per return of that call. A
  numeric argument carries what \<^verbatim>\<open>strtoll\<close> made of it: \<open>None\<close> when it set \<^verbatim>\<open>errno\<close>
  or stopped before the end of the text.
\<close>

datatype opt =
    O_SINK string
  | O_SINK_TIMEOUT "int option"
  | O_OUTPUT string
  | O_OUTPUT_JSON
  | O_LOG_LEVEL "int option"
  | O_PERF
  | O_VERBOSE
  | O_DEBUG
  | O_FORCE_LOG_COLORS
  | O_NO_LOG_COLORS
  | O_HELP
  | O_VERSION
  | O_ZERO
  | O_OTHER

record options =
  sink_name :: "string option"
  sink_timeout :: "32 word"
  output_path :: "string option"
  output_json :: bool
  log_level :: int
  log_colored :: bool

text \<open>
  \<^verbatim>\<open>OPT_NUMBER\<close>: the range check of a parsed number. The text it prints on a value out
  of range is kept as one effect.
\<close>

definition opt_number :: "string \<Rightarrow> int option \<Rightarrow> int \<Rightarrow> int \<Rightarrow> effect list + int" where
  "opt_number name parsed lo hi =
     (case parsed of
        None \<Rightarrow> Inl [Puts (''Invalid value for '' @ name)]
      | Some v \<Rightarrow> if v < lo \<or> v > hi then Inl [Puts (''Invalid value for '' @ name)] else Inr v)"

text \<open>
  The \<^verbatim>\<open>for\<close> over \<^verbatim>\<open>getopt_long\<close> of lines 89--109. \<open>Inl\<close> is a \<^verbatim>\<open>return\<close> from inside the
  loop, with the exit code. The log levels are 0 (info) to 3 (debug), as \<^verbatim>\<open>_help\<close> lists them.
\<close>

fun parse_opts :: "options \<Rightarrow> opt list \<Rightarrow> (int \<times> effect list) + options" where
  "parse_opts o_st [] = Inr o_st"
| "parse_opts o_st (O_SINK s # rest) = parse_opts (o_st\<lparr>sink_name := Some s\<rparr>) rest"
| "parse_opts o_st (O_SINK_TIMEOUT p # rest) =
     (case opt_number ''--sink-timeout'' p 1 60 of
        Inl es \<Rightarrow> Inl (1, es)
      | Inr v \<Rightarrow> parse_opts (o_st\<lparr>sink_timeout := word_of_int v\<rparr>) rest)"
| "parse_opts o_st (O_OUTPUT s # rest) = parse_opts (o_st\<lparr>output_path := Some s\<rparr>) rest"
| "parse_opts o_st (O_OUTPUT_JSON # rest) = parse_opts (o_st\<lparr>output_json := True\<rparr>) rest"
| "parse_opts o_st (O_LOG_LEVEL p # rest) =
     (case opt_number ''--log-level'' p 0 3 of
        Inl es \<Rightarrow> Inl (1, es)
      | Inr v \<Rightarrow> parse_opts (o_st\<lparr>log_level := v\<rparr>) rest)"
| "parse_opts o_st (O_PERF # rest) = parse_opts (o_st\<lparr>log_level := 1\<rparr>) rest"
| "parse_opts o_st (O_VERBOSE # rest) = parse_opts (o_st\<lparr>log_level := 2\<rparr>) rest"
| "parse_opts o_st (O_DEBUG # rest) = parse_opts (o_st\<lparr>log_level := 3\<rparr>) rest"
| "parse_opts o_st (O_FORCE_LOG_COLORS # rest) = parse_opts (o_st\<lparr>log_colored := True\<rparr>) rest"
| "parse_opts o_st (O_NO_LOG_COLORS # rest) = parse_opts (o_st\<lparr>log_colored := False\<rparr>) rest"
| "parse_opts o_st (O_HELP # rest) = Inl (0, [Help Stdout])"
| "parse_opts o_st (O_VERSION # rest) = Inl (0, [Puts ''VERSION''])"
| "parse_opts o_st (O_ZERO # rest) = parse_opts o_st rest"
| "parse_opts o_st (O_OTHER # rest) = Inl (1, [Help Stderr])"

definition options_init :: "int \<Rightarrow> bool \<Rightarrow> options" where
  "options_init lvl colored =
     \<lparr>sink_name = None, sink_timeout = 1, output_path = None, output_json = False,
      log_level = lvl, log_colored = colored\<rparr>"

text \<open>
  \<^verbatim>\<open>main\<close>: the exit code (\<open>None\<close> while \<^verbatim>\<open>_dump_sink\<close> has not returned) and the effects.
  \<^verbatim>\<open>abs\<close> of an \<^verbatim>\<open>int\<close> that is 0 or -1 does not overflow.
\<close>

definition main :: "(rat \<Rightarrow> string) \<Rightarrow> bool \<Rightarrow> bool \<Rightarrow> iteration list \<Rightarrow> int \<Rightarrow> bool
    \<Rightarrow> opt list \<Rightarrow> int option \<times> effect list" where
  "main fmt_ts fopen_ok memsink_ok its lvl colored argv =
     (case parse_opts (options_init lvl colored) argv of
        Inl (code, es) \<Rightarrow> (Some code, es)
      | Inr o_st \<Rightarrow>
          (case sink_name o_st of
             None \<Rightarrow> (Some 1, [Puts ''Missing option --sink. See --help for details.''])
           | Some s \<Rightarrow>
               if s = [] then (Some 1, [Puts ''Missing option --sink. See --help for details.''])
               else
                 (let (r, es) = dump_sink fmt_ts fopen_ok memsink_ok its s (sink_timeout o_st)
                                  (output_path o_st) (output_json o_st)
                  in (map_option abs r, Install_signal_handlers # es))))"

text \<open>What the loop publishes through \<^verbatim>\<open>LOG_PERF_FPS\<close>, read off a list of effects.\<close>

fun published :: "effect list \<Rightarrow> 32 word list" where
  "published [] = []"
| "published (Log_perf_fps w # es) = w # published es"
| "published (_ # es) = published es"

text \<open>What reaches an output stream, and which streams are closed.\<close>

fun written :: "effect list \<Rightarrow> effect list" where
  "written [] = []"
| "written (Fprintf fp s # es) = Fprintf fp s # written es"
| "written (Fwrite fp bs # es) = Fwrite fp bs # written es"
| "written (Fflush fp # es) = Fflush fp # written es"
| "written (Puts s # es) = Puts s # written es"
| "written (Help fp # es) = Help fp # written es"
| "written (_ # es) = written es"

fun closed :: "effect list \<Rightarrow> file_ptr list" where
  "closed [] = []"
| "closed (Fclose fp # es) = fp # closed es"
| "closed (_ # es) = closed es"

fun target :: "effect \<Rightarrow> file_ptr option" where
  "target (Fprintf fp s) = Some fp"
| "target (Fwrite fp bs) = Some fp"
| "target (Fflush fp) = Some fp"
| "target (Fclose fp) = Some fp"
| "target (Puts s) = Some Stdout"
| "target (Help fp) = Some fp"
| "target _ = None"

text \<open>
  The frames the loop reads successfully before it is left, and what is written for one
  of them (the loop state does not change what \<open>emit\<close> writes).
\<close>

fun frames_read :: "iteration list \<Rightarrow> frame_s list" where
  "frames_read [] = []"
| "frames_read (it # its) =
     (if stop it then []
      else if get_error it = 0 then got_frame it # frames_read its
      else if get_error it \<noteq> - 2 then []
      else frames_read its)"

definition frame_output :: "(rat \<Rightarrow> string) \<Rightarrow> file_ptr option \<Rightarrow> bool \<Rightarrow> frame_s \<Rightarrow> effect list" where
  "frame_output fmt_ts fp js f = snd (emit fmt_ts fp js loop_init f)"

text \<open>An iteration that leaves the loop running: no stop, and a frame or a timeout.\<close>

definition running :: "iteration \<Rightarrow> bool" where
  "running it = (\<not> stop it \<and> (get_error it = 0 \<or> get_error it = - 2))"

fun is_output :: "opt \<Rightarrow> bool" where
  "is_output (O_OUTPUT s) = True"
| "is_output _ = False"

text \<open>An empty frame, and an iteration that reads it successfully at a given time.\<close>

definition frame0 :: frame_s where
  "frame0 = \<lparr>data = [], used = 0, width = 0, height = 0, format = 0, stride = 0, online = True,
     grab_ts = 0, encode_begin_ts = 0, encode_end_ts = 0\<rparr>"

definition ok_at :: "rat \<Rightarrow> iteration" where
  "ok_at t = \<lparr>stop = False, get_error = 0, got_frame = frame0, now = t\<rparr>"

definition stop_now :: iteration where
  "stop_now = \<lparr>stop = True, get_error = 0, got_frame = frame0, now = 0\<rparr>"

section \<open>The encoder: \<^verbatim>\<open>src/encoder.c\<close>, as built with \<^verbatim>\<open>OMX_ENCODER\<close>\<close>

subsection \<open>Memory\<close>

text \<open>
  The encoder is a small graph of heap objects: \<^verbatim>\<open>encoder_t\<close> points to its
  \<^verbatim>\<open>encoder_runtime_t\<close>, which points to an array of pointers to hardware instances.
  An address is an index into the list of cells; a freed cell is \<open>None\<close> and its address
  is never handed out again, so every use of a dangling pointer is seen. A null pointer
  is \<open>None :: addr option\<close>.
\<close>

type_synonym addr = nat

datatype encoder_type_t = ENCODER_TYPE_UNKNOWN | ENCODER_TYPE_CPU | ENCODER_TYPE_OMX

record encoder_runtime_t =
  run_type :: encoder_type_t
  n_omxs :: "32 word"
  omxs :: "addr option"

record encoder_t =
  enc_type :: encoder_type_t
  quality :: "32 word"
  run :: addr

text \<open>\<^verbatim>\<open>device_t\<close> (\<^verbatim>\<open>device.h\<close>): the one field \<^verbatim>\<open>encoder.c\<close> reads and writes.\<close>

record device_t =
  n_workers :: "32 word"

datatype obj = Encoder encoder_t | Runtime encoder_runtime_t | Omxs "addr option list" | Omx

type_synonym heap = "obj option list"

datatype fault = Assert_failed | Invalid_pointer | Out_of_bounds

datatype enc_effect =
    Log string
  | Omx_encoder_init "addr option"
  | Omx_encoder_prepare_live addr "32 word"
  | Omx_encoder_compress_buffer addr nat
  | Jpeg_encoder_compress_buffer nat "32 word"
  | Omx_encoder_destroy addr
  | Free addr

definition lookup :: "heap \<Rightarrow> addr \<Rightarrow> obj option" where
  "lookup h a = (if a < length h then h ! a else None)"

definition alloc :: "heap \<Rightarrow> obj \<Rightarrow> addr \<times> heap" where
  "alloc h v = (length h, h @ [Some v])"

definition update :: "heap \<Rightarrow> addr \<Rightarrow> obj \<Rightarrow> heap" where
  "update h a v = h[a := Some v]"

definition release :: "heap \<Rightarrow> addr \<Rightarrow> heap" where
  "release h a = h[a := None]"

text \<open>\<^verbatim>\<open>free\<close>: undefined on a pointer that is not live, which is a fault here.\<close>

definition free :: "heap \<Rightarrow> addr \<Rightarrow> fault + heap" where
  "free h a = (case lookup h a of None \<Rightarrow> Inl Invalid_pointer | Some v \<Rightarrow> Inr (release h a))"

subsection \<open>\<^verbatim>\<open>encoder_init\<close>\<close>

definition encoder_init :: "heap \<Rightarrow> addr \<times> heap" where
  "encoder_init h =
     (let (r, h1) = alloc h (Runtime \<lparr>run_type = ENCODER_TYPE_CPU, n_omxs = 0, omxs = None\<rparr>);
          (e, h2) = alloc h1 (Encoder \<lparr>enc_type = ENCODER_TYPE_CPU, quality = 80, run = r\<rparr>)
      in (e, h2))"

text \<open>
  The backend is selected by the caller, who writes the \<^verbatim>\<open>type\<close> field of the
  \<^verbatim>\<open>encoder_t\<close>; \<^verbatim>\<open>encoder.c\<close> only reads it.
\<close>

definition select_type :: "heap \<Rightarrow> addr \<Rightarrow> encoder_type_t \<Rightarrow> fault + heap" where
  "select_type h encoder t =
     (case lookup h encoder of
        Some (Encoder e) \<Rightarrow> Inr (update h encoder (Encoder (e\<lparr>enc_type := t\<rparr>)))
      | _ \<Rightarrow> Inl Invalid_pointer)"

text \<open>The write \<^verbatim>\<open>encoder->run->type = ENCODER_TYPE_CPU\<close> of the three fallback paths.\<close>

definition use_fallback :: "heap \<Rightarrow> addr \<Rightarrow> fault + heap" where
  "use_fallback h r_addr =
     (case lookup h r_addr of
        Some (Runtime r) \<Rightarrow> Inr (update h r_addr (Runtime (r\<lparr>run_type := ENCODER_TYPE_CPU\<rparr>)))
      | _ \<Rightarrow> Inl Invalid_pointer)"

subsection \<open>\<^verbatim>\<open>encoder_prepare\<close>\<close>

text \<open>
  Lines 89--93. \<open>init_ok index\<close> says whether the call of \<^verbatim>\<open>omx_encoder_init\<close> for that
  slot returns an instance. The flag in the result is \<open>False\<close> when the loop was left
  through \<^verbatim>\<open>goto use_fallback\<close>.
\<close>

function prepare_loop :: "(nat \<Rightarrow> bool) \<Rightarrow> heap \<Rightarrow> addr \<Rightarrow> nat \<Rightarrow> nat
    \<Rightarrow> fault + (bool \<times> heap \<times> enc_effect list)" where
  "prepare_loop init_ok h arr n index =
     (if index < n then
        (case lookup h arr of
           Some (Omxs xs) \<Rightarrow>
             if index < length xs then
               (if init_ok index then
                  (let (p, h1) = alloc h Omx;
                       h2 = update h1 arr (Omxs (xs[index := Some p]))
                   in case prepare_loop init_ok h2 arr n (Suc index) of
                        Inl f \<Rightarrow> Inl f
                      | Inr (fin, h3, es) \<Rightarrow> Inr (fin, h3, Omx_encoder_init (Some p) # es))
                else
                  Inr (False, update h arr (Omxs (xs[index := None])), [Omx_encoder_init None]))
             else Inl Out_of_bounds
         | _ \<Rightarrow> Inl Invalid_pointer)
      else Inr (True, h, []))"
  by pat_completeness auto
termination
  by (relation "measure (\<lambda>(init_ok, h, arr, n, index). n - index)") auto

declare prepare_loop.simps [simp del]

text \<open>
  \<open>omx_max\<close> is \<^verbatim>\<open>OMX_MAX_ENCODERS\<close> (\<^verbatim>\<open>omx/encoder.h\<close>). \<^verbatim>\<open>A_CALLOC\<close> aborts the process
  when memory runs out; that case is left out.
\<close>

definition encoder_prepare :: "32 word \<Rightarrow> (nat \<Rightarrow> bool) \<Rightarrow> heap \<Rightarrow> addr \<Rightarrow> device_t
    \<Rightarrow> fault + (device_t \<times> heap \<times> enc_effect list)" where
  "encoder_prepare omx_max init_ok h encoder dev =
     (case lookup h encoder of
        Some (Encoder e) \<Rightarrow>
          if enc_type e = ENCODER_TYPE_UNKNOWN then Inl Assert_failed
          else
            (case lookup h (run e) of
               Some (Runtime r) \<Rightarrow>
                 (let r1 = r\<lparr>run_type := enc_type e\<rparr>;
                      h1 = update h (run e) (Runtime r1);
                      es1 = (if run_type r1 \<noteq> ENCODER_TYPE_CPU
                             then [Log ''Initializing encoder ...''] else [])
                            @ [Log ''Using JPEG quality: %u%%'']
                  in if run_type r1 = ENCODER_TYPE_OMX then
                       (let over = (n_workers dev > omx_max);
                            es2 = (if over
                                   then [Log ''OMX-based encoder can only work with %u worker threads; forced --workers=%u'']
                                   else []);
                            dev1 = (if over then dev\<lparr>n_workers := omx_max\<rparr> else dev);
                            r2 = r1\<lparr>n_omxs := n_workers dev1\<rparr>;
                            (arr, h2) = alloc h1 (Omxs (replicate (unat (n_omxs r2)) None));
                            h3 = update h2 (run e) (Runtime (r2\<lparr>omxs := Some arr\<rparr>))
                        in case prepare_loop init_ok h3 arr (unat (n_omxs r2)) 0 of
                             Inl f \<Rightarrow> Inl f
                           | Inr (fin, h4, es3) \<Rightarrow>
                               if fin then Inr (dev1, h4, es1 @ es2 @ es3)
                               else
                                 (case use_fallback h4 (run e) of
                                    Inl f \<Rightarrow> Inl f
                                  | Inr h5 \<Rightarrow>
                                      Inr (dev1, h5,
                                           es1 @ es2 @ es3
                                           @ [Log ''Can't initialize selected encoder, using CPU instead it''])))
                     else Inr (dev, h1, es1))
             | _ \<Rightarrow> Inl Invalid_pointer)
      | _ \<Rightarrow> Inl Invalid_pointer)"

subsection \<open>\<^verbatim>\<open>encoder_destroy\<close>\<close>

text \<open>
  Lines 110--114. \<^verbatim>\<open>omx_encoder_destroy\<close> releases the instance it is given, which has
  to be live.
\<close>

function destroy_loop :: "heap \<Rightarrow> addr \<Rightarrow> nat \<Rightarrow> nat \<Rightarrow> fault + (heap \<times> enc_effect list)" where
  "destroy_loop h arr n index =
     (if index < n then
        (case lookup h arr of
           Some (Omxs xs) \<Rightarrow>
             if index < length xs then
               (case xs ! index of
                  None \<Rightarrow> destroy_loop h arr n (Suc index)
                | Some p \<Rightarrow>
                    (case lookup h p of
                       Some Omx \<Rightarrow>
                         (case destroy_loop (release h p) arr n (Suc index) of
                            Inl f \<Rightarrow> Inl f
                          | Inr (h1, es) \<Rightarrow> Inr (h1, Omx_encoder_destroy p # es))
                     | _ \<Rightarrow> Inl Invalid_pointer))
             else Inl Out_of_bounds
         | _ \<Rightarrow> Inl Invalid_pointer)
      else Inr (h, []))"
  by pat_completeness auto
termination
  by (relation "measure (\<lambda>(h, arr, n, index). n - index)") auto

declare destroy_loop.simps [simp del]

definition encoder_destroy :: "heap \<Rightarrow> addr \<Rightarrow> fault + (heap \<times> enc_effect list)" where
  "encoder_destroy h encoder =
     (case lookup h encoder of
        Some (Encoder e) \<Rightarrow>
          (case lookup h (run e) of
             Some (Runtime r) \<Rightarrow>
               (case (case omxs r of
                        None \<Rightarrow> Inr (h, [])
                      | Some arr \<Rightarrow>
                          (case destroy_loop h arr (unat (n_omxs r)) 0 of
                             Inl f \<Rightarrow> Inl f
                           | Inr (h1, es) \<Rightarrow>
                               (case free h1 arr of
                                  Inl f \<Rightarrow> Inl f
                                | Inr h2 \<Rightarrow> Inr (h2, es @ [Free arr])))) of
                  Inl f \<Rightarrow> Inl f
                | Inr (h3, es) \<Rightarrow>
                    (case free h3 (run e) of
                       Inl f \<Rightarrow> Inl f
                     | Inr h4 \<Rightarrow>
                         (case free h4 encoder of
                            Inl f \<Rightarrow> Inl f
                          | Inr h5 \<Rightarrow> Inr (h5, es @ [Free (run e), Free encoder]))))
           | _ \<Rightarrow> Inl Invalid_pointer)
      | _ \<Rightarrow> Inl Invalid_pointer)"

subsection \<open>\<^verbatim>\<open>encoder_prepare_live\<close>\<close>

text \<open>
  Lines 139--143. \<open>live_res index\<close> is what \<^verbatim>\<open>omx_encoder_prepare_live\<close> returns for the
  instance in that slot, which has to be live. The flag is \<open>False\<close> on
  \<^verbatim>\<open>goto use_fallback\<close>.
\<close>

function prepare_live_loop :: "(nat \<Rightarrow> int) \<Rightarrow> heap \<Rightarrow> addr \<Rightarrow> 32 word \<Rightarrow> nat \<Rightarrow> nat
    \<Rightarrow> fault + (bool \<times> enc_effect list)" where
  "prepare_live_loop live_res h arr q n index =
     (if index < n then
        (case lookup h arr of
           Some (Omxs xs) \<Rightarrow>
             if index < length xs then
               (case xs ! index of
                  None \<Rightarrow> Inl Invalid_pointer
                | Some p \<Rightarrow>
                    (case lookup h p of
                       Some Omx \<Rightarrow>
                         if live_res index < 0 then Inr (False, [Omx_encoder_prepare_live p q])
                         else
                           (case prepare_live_loop live_res h arr q n (Suc index) of
                              Inl f \<Rightarrow> Inl f
                            | Inr (fin, es) \<Rightarrow> Inr (fin, Omx_encoder_prepare_live p q # es))
                     | _ \<Rightarrow> Inl Invalid_pointer))
             else Inl Out_of_bounds
         | _ \<Rightarrow> Inl Invalid_pointer)
      else Inr (True, []))"
  by pat_completeness auto
termination
  by (relation "measure (\<lambda>(live_res, h, arr, q, n, index). n - index)") auto

declare prepare_live_loop.simps [simp del]

definition encoder_prepare_live :: "(nat \<Rightarrow> int) \<Rightarrow> heap \<Rightarrow> addr
    \<Rightarrow> fault + (heap \<times> enc_effect list)" where
  "encoder_prepare_live live_res h encoder =
     (case lookup h encoder of
        Some (Encoder e) \<Rightarrow>
          (case lookup h (run e) of
             Some (Runtime r) \<Rightarrow>
               if run_type r = ENCODER_TYPE_UNKNOWN then Inl Assert_failed
               else if run_type r = ENCODER_TYPE_OMX then
                 (case omxs r of
                    None \<Rightarrow> if 0 < unat (n_omxs r) then Inl Invalid_pointer else Inr (h, [])
                  | Some arr \<Rightarrow>
                      (case prepare_live_loop live_res h arr (quality e) (unat (n_omxs r)) 0 of
                         Inl f \<Rightarrow> Inl f
                       | Inr (fin, es) \<Rightarrow>
                           if fin then Inr (h, es)
                           else
                             (case use_fallback h (run e) of
                                Inl f \<Rightarrow> Inl f
                              | Inr h1 \<Rightarrow>
                                  Inr (h1, es @ [Log ''Can't prepare selected encoder, falling back to CPU'']))))
               else Inr (h, [])
           | _ \<Rightarrow> Inl Invalid_pointer)
      | _ \<Rightarrow> Inl Invalid_pointer)"

subsection \<open>\<^verbatim>\<open>encoder_compress_buffer\<close>\<close>

text \<open>
  \<open>omx_res\<close> is what \<^verbatim>\<open>omx_encoder_compress_buffer\<close> returns when it is called.
  \<^verbatim>\<open>jpeg_encoder_compress_buffer\<close> returns nothing.
\<close>

definition encoder_compress_buffer :: "int \<Rightarrow> heap \<Rightarrow> addr \<Rightarrow> nat \<Rightarrow> nat
    \<Rightarrow> fault + (int \<times> heap \<times> enc_effect list)" where
  "encoder_compress_buffer omx_res h encoder worker_number buf_index =
     (case lookup h encoder of
        Some (Encoder e) \<Rightarrow>
          (case lookup h (run e) of
             Some (Runtime r) \<Rightarrow>
               if run_type r = ENCODER_TYPE_UNKNOWN then Inl Assert_failed
               else if run_type r = ENCODER_TYPE_CPU then
                 Inr (0, h, [Jpeg_encoder_compress_buffer buf_index (quality e)])
               else if run_type r = ENCODER_TYPE_OMX then
                 (case omxs r of
                    None \<Rightarrow> Inl Invalid_pointer
                  | Some arr \<Rightarrow>
                      (case lookup h arr of
                         Some (Omxs xs) \<Rightarrow>
                           if worker_number < length xs then
                             (case xs ! worker_number of
                                None \<Rightarrow> Inl Invalid_pointer
                              | Some p \<Rightarrow>
                                  (case lookup h p of
                                     Some Omx \<Rightarrow>
                                       if omx_res < 0 then
                                         (case use_fallback h (run e) of
                                            Inl f \<Rightarrow> Inl f
                                          | Inr h1 \<Rightarrow>
                                              Inr (- 1, h1,
                                                   [Omx_encoder_compress_buffer p buf_index,
                                                    Log ''HW compressing error, falling back to CPU'']))
                                       else Inr (0, h, [Omx_encoder_compress_buffer p buf_index])
                                   | _ \<Rightarrow> Inl Invalid_pointer))
                           else Inl Out_of_bounds
                       | _ \<Rightarrow> Inl Invalid_pointer))
               else Inr (0, h, [])
           | _ \<Rightarrow> Inl Invalid_pointer)
      | _ \<Rightarrow> Inl Invalid_pointer)"

subsection \<open>Sequences of calls\<close>

text \<open>
  A caller's calls on one encoder, each with what the hardware layer answers during it.
\<close>

datatype enc_op =
    Select encoder_type_t
  | Prepare "nat \<Rightarrow> bool"
  | Prepare_live "nat \<Rightarrow> int"
  | Compress nat nat int

fun encoder_op :: "32 word \<Rightarrow> addr \<Rightarrow> heap \<times> device_t \<Rightarrow> enc_op \<Rightarrow> fault + (heap \<times> device_t)" where
  "encoder_op omx_max encoder (h, dev) (Select t) =
     (case select_type h encoder t of Inl f \<Rightarrow> Inl f | Inr h1 \<Rightarrow> Inr (h1, dev))"
| "encoder_op omx_max encoder (h, dev) (Prepare init_ok) =
     (case encoder_prepare omx_max init_ok h encoder dev of
        Inl f \<Rightarrow> Inl f
      | Inr (dev1, h1, es) \<Rightarrow> Inr (h1, dev1))"
| "encoder_op omx_max encoder (h, dev) (Prepare_live live_res) =
     (case encoder_prepare_live live_res h encoder of
        Inl f \<Rightarrow> Inl f
      | Inr (h1, es) \<Rightarrow> Inr (h1, dev))"
| "encoder_op omx_max encoder (h, dev) (Compress worker_number buf_index omx_res) =
     (case encoder_compress_buffer omx_res h encoder worker_number buf_index of
        Inl f \<Rightarrow> Inl f
      | Inr (rc, h1, es) \<Rightarrow> Inr (h1, dev))"

fun encoder_ops :: "32 word \<Rightarrow> addr \<Rightarrow> heap \<times> device_t \<Rightarrow> enc_op list \<Rightarrow> fault + (heap \<times> device_t)" where
  "encoder_ops omx_max encoder s [] = Inr s"
| "encoder_ops omx_max encoder s (x # xs) =
     (case encoder_op omx_max encoder s x of
        Inl f \<Rightarrow> Inl f
      | Inr s1 \<Rightarrow> encoder_ops omx_max encoder s1 xs)"

text \<open>The runtime variant of the encoder at an address, when the pointers are good.\<close>

definition runtime_type :: "heap \<Rightarrow> addr \<Rightarrow> encoder_type_t option" where
  "runtime_type h encoder =
     (case lookup h encoder of
        Some (Encoder e) \<Rightarrow>
          (case lookup h (run e) of Some (Runtime r) \<Rightarrow> Some (run_type r) | _ \<Rightarrow> None)
      | _ \<Rightarrow> None)"

fun is_prepare :: "enc_op \<Rightarrow> bool" where
  "is_prepare (Prepare init_ok) = True"
| "is_prepare _ = False"

fun is_select :: "enc_op \<Rightarrow> bool" where
  "is_select (Select t) = True"
| "is_select _ = False"

text \<open>Six frames observed at 0.1, 0.3, 0.5, 0.9, 1.2 and 1.4 seconds.\<close>

definition six_frames :: "iteration list" where
  "six_frames =
     map ok_at [Fract 1 10, Fract 3 10, Fract 5 10, Fract 9 10, Fract 12 10, Fract 14 10]"



text \<open>
  What a reader takes as the \<^verbatim>\<open>data\<close> field of a record line: the text between the last
  double quote before the closing \<^verbatim>\<open>"}\<close> and that closing.
\<close>

definition data_field :: "string \<Rightarrow> string" where
  "data_field line = rev (takeWhile (\<lambda>c. c \<noteq> CHR 0x22) (drop 3 (rev line)))"

text \<open>A frame with a four-byte buffer of which three bytes are used.\<close>

definition frame_man :: frame_s where
  "frame_man = \<lparr>data = [77, 97, 110, 1], used = 3, width = 640, height = 480, format = 7,
     stride = 1280, online = True, grab_ts = 1, encode_begin_ts = 2, encode_end_ts = 3\<rparr>"

text \<open>An iteration that reads the three-byte frame at 1.5 seconds.\<close>

definition ok_man :: iteration where
  "ok_man = \<lparr>stop = False, get_error = 0, got_frame = frame_man, now = Fract 3 2\<rparr>"

text \<open>
  Two encoders for the examples: one as \<^verbatim>\<open>encoder_init\<close> leaves it, and one with the
  hardware backend selected and prepared for two workers.
\<close>

definition heap_cpu :: heap where
  "heap_cpu =
     [Some (Runtime \<lparr>run_type = ENCODER_TYPE_CPU, n_omxs = 0, omxs = None\<rparr>),
      Some (Encoder \<lparr>enc_type = ENCODER_TYPE_CPU, quality = 80, run = 0\<rparr>)]"

definition heap_omx :: heap where
  "heap_omx =
     [Some (Runtime \<lparr>run_type = ENCODER_TYPE_OMX, n_omxs = 2, omxs = Some 2\<rparr>),
      Some (Encoder \<lparr>enc_type = ENCODER_TYPE_OMX, quality = 80, run = 0\<rparr>),
      Some (Omxs [Some 3, Some 4]),
      Some Omx,
      Some Omx]"

text \<open>The instances an array of slots holds, in ascending slot order.\<close>

fun instances :: "addr option list \<Rightarrow> addr list" where
  "instances [] = []"
| "instances (None # xs) = instances xs"
| "instances (Some p # xs) = p # instances xs"

text \<open>
  An encoder whose pointers are all good: the two records are live, and when there is an
  array of slots it has \<open>n_omxs\<close> entries whose instances are live and pairwise
  different.
\<close>

definition encoder_wf :: "heap \<Rightarrow> addr \<Rightarrow> bool" where
  "encoder_wf h encoder =
     (case lookup h encoder of
        Some (Encoder e) \<Rightarrow>
          (case lookup h (run e) of
             Some (Runtime r) \<Rightarrow>
               (case omxs r of
                  None \<Rightarrow> True
                | Some arr \<Rightarrow>
                    (case lookup h arr of
                       Some (Omxs xs) \<Rightarrow>
                         length xs = unat (n_omxs r) \<and> distinct (instances xs)
                         \<and> list_all (\<lambda>p. lookup h p = Some Omx) (instances xs)
                     | _ \<Rightarrow> False))
           | _ \<Rightarrow> False)
      | _ \<Rightarrow> False)"

text \<open>
  More encoders for the examples: the hardware backend selected but not prepared yet;
  prepared for five workers with a limit of three, the allocation for slot 1 failing; and
  the prepared encoder of two workers after a failed compression.
\<close>

definition heap_selected :: heap where
  "heap_selected =
     [Some (Runtime \<lparr>run_type = ENCODER_TYPE_CPU, n_omxs = 0, omxs = None\<rparr>),
      Some (Encoder \<lparr>enc_type = ENCODER_TYPE_OMX, quality = 80, run = 0\<rparr>)]"

definition heap_partial :: heap where
  "heap_partial =
     [Some (Runtime \<lparr>run_type = ENCODER_TYPE_CPU, n_omxs = 3, omxs = Some 2\<rparr>),
      Some (Encoder \<lparr>enc_type = ENCODER_TYPE_OMX, quality = 80, run = 0\<rparr>),
      Some (Omxs [Some 3, None, None]),
      Some Omx]"

definition heap_fallen :: heap where
  "heap_fallen =
     [Some (Runtime \<lparr>run_type = ENCODER_TYPE_CPU, n_omxs = 2, omxs = Some 2\<rparr>),
      Some (Encoder \<lparr>enc_type = ENCODER_TYPE_OMX, quality = 80, run = 0\<rparr>),
      Some (Omxs [Some 3, Some 4]),
      Some Omx,
      Some Omx]"

text \<open>The runtime variant after a sequence of calls, when none of them faulted.\<close>

definition runtime_after :: "fault + (heap \<times> device_t) \<Rightarrow> addr \<Rightarrow> encoder_type_t option" where
  "runtime_after res encoder =
     (case res of Inl f \<Rightarrow> None | Inr (h, dev) \<Rightarrow> runtime_type h encoder)"

text \<open>Every allocation of a hardware instance succeeding.\<close>

definition always_ok :: "nat \<Rightarrow> bool" where
  "always_ok i = True"

text \<open>The initial encoder after \<^verbatim>\<open>encoder_destroy\<close>.\<close>

definition heap_gone :: heap where
  "heap_gone = [None, None]"

section \<open>Properties of the consumer\<close>

subsection \<open>Shared facts\<close>

lemma published_append: "published (xs @ ys) = published xs @ published ys"
  by (induction xs rule: published.induct) auto

lemma emit_keeps_fps:
  assumes "emit fmt_ts fp js st f = (st', es)"
  shows "fps st' = fps st" and "fps_accum st' = fps_accum st"
    and "fps_second st' = fps_second st" and "published es = []"
  using assms by (auto simp: emit_def Let_def split: option.splits if_splits)

lemma window_count:
  assumes "\<forall>it\<in>set its. \<not> stop it \<and> get_error it = 0 \<and> floor_ms (now it) = fps_second st"
    and "\<not> stop nxt" and "get_error nxt = 0" and "floor_ms (now nxt) \<noteq> fps_second st"
  shows "case dump_loop fmt_ts fp js st (its @ [nxt]) of
           (r, st', es) \<Rightarrow>
             r = None \<and> published es = [fps_accum st + of_nat (length its)]
             \<and> fps st' = fps_accum st + of_nat (length its) \<and> fps_accum st' = 1
             \<and> fps_second st' = floor_ms (now nxt)"
  using assms
proof (induction its arbitrary: st)
  case Nil
  obtain st1 es1 where w: "fps_window st (now nxt) = (st1, es1)"
    by fastforce
  obtain st2 es2 where e: "emit fmt_ts fp js st1 (got_frame nxt) = (st2, es2)"
    by fastforce
  from w Nil have w': "es1 = [Log_perf_fps (fps_accum st)]" "fps st1 = fps_accum st"
    "fps_accum st1 = 1" "fps_second st1 = floor_ms (now nxt)"
    by (auto simp: fps_window_def Let_def)
  from emit_keeps_fps [OF e] w' Nil w e show ?case
    by (simp add: published_append)
next
  case (Cons it its)
  obtain st1 es1 where w: "fps_window st (now it) = (st1, es1)"
    by fastforce
  obtain st2 es2 where e: "emit fmt_ts fp js st1 (got_frame it) = (st2, es2)"
    by fastforce
  from w Cons.prems have w': "es1 = []" "fps st1 = fps st" "fps_accum st1 = fps_accum st + 1"
    "fps_second st1 = fps_second st"
    by (auto simp: fps_window_def Let_def)
  note ef = emit_keeps_fps [OF e]
  have "case dump_loop fmt_ts fp js st2 (its @ [nxt]) of
          (r, st', es) \<Rightarrow>
            r = None \<and> published es = [fps_accum st2 + of_nat (length its)]
            \<and> fps st' = fps_accum st2 + of_nat (length its) \<and> fps_accum st' = 1
            \<and> fps_second st' = floor_ms (now nxt)"
    using Cons.prems ef w' by (intro Cons.IH) auto
  then show ?case
    using Cons.prems w e ef w' by (auto simp: published_append split: prod.splits)
qed

lemma six_frames_published:
  "published (snd (snd (dump_loop fmt_ts fp js loop_init (take 4 six_frames)))) = []"
  "published (snd (snd (dump_loop fmt_ts fp js loop_init (take 5 six_frames)))) = [4]"
  "published (snd (snd (dump_loop fmt_ts fp js loop_init six_frames))) = [4]"
  by (cases fp; cases js;
      simp add: six_frames_def ok_at_def loop_init_def fps_window_def emit_def floor_ms_def
        frame0_def Let_def)+

lemma written_append: "written (xs @ ys) = written xs @ written ys"
  by (induction xs rule: written.induct) auto

lemma closed_append: "closed (xs @ ys) = closed xs @ closed ys"
  by (induction xs rule: closed.induct) auto

lemma emit_effects:
  "snd (emit fmt_ts fp js st f) = frame_output fmt_ts fp js f"
  "written (frame_output fmt_ts fp js f) = frame_output fmt_ts fp js f"
  "closed (frame_output fmt_ts fp js f) = []"
  "frame_output fmt_ts None js f = []"
  by (auto simp: emit_def frame_output_def Let_def split: option.splits)

lemma emit_targets: "set (map target (frame_output fmt_ts (Some fp) js f)) \<subseteq> {Some fp}"
  by (auto simp: emit_def frame_output_def Let_def split: option.splits)

lemma emit_None: "emit fmt_ts None js st f = (st, [])"
  by (simp add: emit_def)

lemma window_effects:
  "written (snd (fps_window st t)) = []" "closed (snd (fps_window st t)) = []"
  "set (map target (snd (fps_window st t))) \<subseteq> {None}"
  by (auto simp: fps_window_def Let_def)

lemma dump_loop_Cons:
  "dump_loop fmt_ts fp js st (it # its) =
     (if stop it then (Some 0, st, [])
      else if get_error it = 0 then
        (fst (dump_loop fmt_ts fp js (fst (emit fmt_ts fp js (fst (fps_window st (now it))) (got_frame it))) its),
         fst (snd (dump_loop fmt_ts fp js (fst (emit fmt_ts fp js (fst (fps_window st (now it))) (got_frame it))) its)),
         Memsink_client_get # snd (fps_window st (now it))
           @ frame_output fmt_ts fp js (got_frame it)
           @ snd (snd (dump_loop fmt_ts fp js (fst (emit fmt_ts fp js (fst (fps_window st (now it))) (got_frame it))) its)))
      else if get_error it \<noteq> - 2 then (Some (- 1), st, [Memsink_client_get])
      else (fst (dump_loop fmt_ts fp js st its), fst (snd (dump_loop fmt_ts fp js st its)),
            Memsink_client_get # snd (snd (dump_loop fmt_ts fp js st its))))"
  by (simp add: case_prod_beta Let_def emit_effects(1))

lemma loop_written:
  "written (snd (snd (dump_loop fmt_ts fp js st its)))
     = concat (map (frame_output fmt_ts fp js) (frames_read its))"
  by (induction its arbitrary: st)
    (simp_all add: dump_loop_Cons written_append emit_effects window_effects del: dump_loop.simps(2))

lemma loop_closed: "closed (snd (snd (dump_loop fmt_ts fp js st its))) = []"
  by (induction its arbitrary: st)
    (simp_all add: dump_loop_Cons closed_append emit_effects window_effects del: dump_loop.simps(2))

lemma loop_targets:
  "set (map target (snd (snd (dump_loop fmt_ts (Some fp) js st its)))) \<subseteq> {None, Some fp}"
proof (induction its arbitrary: st)
  case Nil
  show ?case by simp
next
  case (Cons it its)
  show ?case
    using Cons.IH [of "fst (emit fmt_ts (Some fp) js (fst (fps_window st (now it))) (got_frame it))"]
      Cons.IH [of st]
      emit_targets [of fmt_ts fp js "got_frame it"] window_effects(3) [of st "now it"]
    by (auto simp: dump_loop_Cons simp del: dump_loop.simps(2))
qed

lemma loop_running:
  "list_all running pre \<Longrightarrow> fst (dump_loop fmt_ts fp js st pre) = None"
  by (induction pre arbitrary: st) (auto simp: dump_loop_Cons running_def simp del: dump_loop.simps(2))

lemma loop_exit_stop:
  "list_all running pre \<Longrightarrow> stop s \<Longrightarrow>
   fst (dump_loop fmt_ts fp js st (pre @ s # its)) = Some 0"
  by (induction pre arbitrary: st) (auto simp: dump_loop_Cons running_def simp del: dump_loop.simps(2))




lemma loop_None_json: "dump_loop fmt_ts None js st its = dump_loop fmt_ts None False st its"
  by (induction its arbitrary: st)
     (simp_all add: dump_loop_Cons emit_None frame_output_def del: dump_loop.simps(2))

lemma cleanup_facts:
  "written (cleanup fp sink) = []"
  "closed (cleanup fp sink) = (case fp of None \<Rightarrow> [] | Some f \<Rightarrow> if f \<noteq> Stdout then [f] else [])"
  "set (map target (cleanup (Some Stdout) sink)) \<subseteq> {None}"
  by (auto simp: cleanup_def split: option.splits)

lemma open_output_facts:
  "written (snd (open_output fopen_ok path)) = []"
  "closed (snd (open_output fopen_ok path)) = []"
  "set (map target (snd (open_output fopen_ok path))) \<subseteq> {None}"
  "open_output fopen_ok None = (Inr None, [])"
  "open_output fopen_ok (Some ''-'') = (Inr (Some Stdout), [])"
  "p \<noteq> [] \<Longrightarrow> p \<noteq> ''-'' \<Longrightarrow> open_output True (Some p) = (Inr (Some (File p)), [Fopen p])"
  by (auto simp: open_output_def split: option.splits)

lemma dump_sink_run:
  assumes "open_output fopen_ok path = (Inr fp, es0)"
  shows "dump_sink fmt_ts fopen_ok True its name tmo path js =
     (fst (dump_loop fmt_ts fp js loop_init its),
      Frame_init # es0 @ [Memsink_init name tmo] @ snd (snd (dump_loop fmt_ts fp js loop_init its))
        @ (case fst (dump_loop fmt_ts fp js loop_init its) of
             None \<Rightarrow> [] | Some retval \<Rightarrow> cleanup fp True))"
  using assms by (simp add: dump_sink_def case_prod_beta)

lemma dump_sink_no_sink:
  assumes "open_output fopen_ok path = (Inr fp, es0)"
  shows "dump_sink fmt_ts fopen_ok False its name tmo path js =
     (Some (- 1), Frame_init # es0 @ [Memsink_init name tmo] @ cleanup fp False)"
  using assms by (simp add: dump_sink_def)

lemma dump_sink_no_file:
  assumes "open_output fopen_ok path = (Inl u, es0)"
  shows "dump_sink fmt_ts fopen_ok memsink_ok its name tmo path js =
     (Some (- 1), Frame_init # es0 @ cleanup None False)"
  using assms by (simp add: dump_sink_def)

lemma sink_None_json:
  "dump_sink fmt_ts fopen_ok memsink_ok its name tmo None js
     = dump_sink fmt_ts fopen_ok memsink_ok its name tmo None False"
  by (cases memsink_ok)
     (simp_all add: dump_sink_run [OF open_output_facts(4)] dump_sink_no_sink [OF open_output_facts(4)]
        loop_None_json [of fmt_ts js])

lemma sink_None_written:
  "written (snd (dump_sink fmt_ts fopen_ok memsink_ok its name tmo None js)) = []"
  by (cases memsink_ok)
     (simp_all add: dump_sink_run [OF open_output_facts(4)] dump_sink_no_sink [OF open_output_facts(4)]
        written_append loop_written emit_effects cleanup_facts split: option.splits)

lemma sink_stdout_targets:
  "set (map target (snd (dump_sink fmt_ts fopen_ok memsink_ok its name tmo (Some ''-'') js))) \<subseteq> {None, Some Stdout}"
  using loop_targets [of fmt_ts Stdout js loop_init its] cleanup_facts(3) [of True] cleanup_facts(3) [of False]
  by (cases memsink_ok)
     (auto simp: dump_sink_run [OF open_output_facts(5)] dump_sink_no_sink [OF open_output_facts(5)]
        split: option.splits)

lemma sink_stdout_closed:
  "closed (snd (dump_sink fmt_ts fopen_ok memsink_ok its name tmo (Some ''-'') js)) = []"
  by (cases memsink_ok)
     (simp_all add: dump_sink_run [OF open_output_facts(5)] dump_sink_no_sink [OF open_output_facts(5)]
        closed_append loop_closed cleanup_facts split: option.splits)

lemma sink_closed_any:
  "Stdout \<notin> set (closed (snd (dump_sink fmt_ts fopen_ok memsink_ok its name tmo path js)))"
proof (cases "open_output fopen_ok path")
  case (Pair res es0)
  have e: "closed es0 = []"
    using open_output_facts(2) [of fopen_ok path] Pair by simp
  show ?thesis
  proof (cases res)
    case (Inl u)
    with Pair e show ?thesis
      by (simp add: dump_sink_no_file closed_append cleanup_facts)
  next
    case (Inr fp)
    with Pair e show ?thesis
      by (cases memsink_ok)
         (auto simp: dump_sink_run dump_sink_no_sink closed_append loop_closed cleanup_facts
            split: option.splits)
  qed
qed

lemma sink_file_closed:
  assumes "p \<noteq> []" "p \<noteq> ''-''"
    and "fst (dump_sink fmt_ts True memsink_ok its name tmo (Some p) js) = Some r"
  shows "closed (snd (dump_sink fmt_ts True memsink_ok its name tmo (Some p) js)) = [File p]"
  using assms(3)
  by (cases memsink_ok)
     (auto simp: dump_sink_run [OF open_output_facts(6) [OF assms(1,2)]]
        dump_sink_no_sink [OF open_output_facts(6) [OF assms(1,2)]]
        closed_append loop_closed cleanup_facts split: option.splits)

lemma main_run:
  assumes "parse_opts (options_init lvl colored) argv = Inr o_st"
    and "sink_name o_st = Some s" and "s \<noteq> []"
  shows "main fmt_ts fopen_ok memsink_ok its lvl colored argv =
     (map_option abs (fst (dump_sink fmt_ts fopen_ok memsink_ok its s (sink_timeout o_st)
                        (output_path o_st) (output_json o_st))),
      Install_signal_handlers # snd (dump_sink fmt_ts fopen_ok memsink_ok its s (sink_timeout o_st)
                        (output_path o_st) (output_json o_st)))"
  using assms by (simp add: main_def case_prod_beta)

lemma dump_loop_ok:
  assumes "\<not> stop ok" and "get_error ok = 0"
  shows "dump_loop fmt_ts fp js st (ok # its) =
           (case dump_loop fmt_ts fp js
                   (st\<lparr>fps := (if floor_ms (now ok) \<noteq> fps_second st then fps_accum st else fps st),
                       fps_accum := (if floor_ms (now ok) \<noteq> fps_second st then 1
                                     else fps_accum st + 1),
                       fps_second := floor_ms (now ok),
                       base64_data :=
                         (case fp of
                            None \<Rightarrow> base64_data st
                          | Some f \<Rightarrow>
                              if js
                              then Some (base64_encode (take (used (got_frame ok)) (data (got_frame ok))))
                              else base64_data st)\<rparr>)
                   its of
              (r, st3, es3) \<Rightarrow>
                (r, st3,
                 Memsink_client_get
                 # (if floor_ms (now ok) \<noteq> fps_second st then [Log_perf_fps (fps_accum st)] else [])
                 @ (case fp of
                      None \<Rightarrow> []
                    | Some f \<Rightarrow>
                        if js
                        then [Fprintf f (json_line fmt_ts (got_frame ok)
                                (base64_encode (take (used (got_frame ok)) (data (got_frame ok))))),
                              Fflush f]
                        else [Fwrite f (take (used (got_frame ok)) (data (got_frame ok))), Fflush f])
                 @ es3))"
  using assms
  by (cases "floor_ms (now ok) = fps_second st"; cases fp; cases js; cases st)
     (simp_all add: fps_window_def emit_def Let_def)

lemma parse_opts_no_output:
  assumes "parse_opts o1 argv = Inr s1" and "list_all (\<lambda>x. \<not> is_output x) argv"
    and "output_path o1 = None"
  shows "output_path s1 = None"
  using assms
  by (induction o1 argv rule: parse_opts.induct) (auto split: sum.splits)

lemma sink_empty_path:
  "dump_sink fmt_ts fopen_ok memsink_ok its name t (Some []) js
     = dump_sink fmt_ts fopen_ok memsink_ok its name t None js"
  by (simp add: dump_sink_def open_output_def)

subsection \<open>The FPS window\<close>

text \<open>
  C1. On an observed frame whose floor-second differs from the marker the loop publishes
  the accumulator, resets it, moves the marker to the floor of the frame's timestamp and
  then counts the frame; otherwise it only counts the frame. So after any run of frames
  observed in the marker's second, the first frame of another second publishes the
  accumulator's starting value plus the length of the run. For observations at 0.1, 0.3,
  0.5, 0.9, 1.2 and 1.4 seconds nothing is published during the first four, 4 is
  published at the fifth (1.2), and nothing more at the sixth.
\<close>

theorem fps_windowing:
  assumes "\<forall>it\<in>set its. \<not> stop it \<and> get_error it = 0 \<and> floor_ms (now it) = fps_second st"
    and "\<not> stop nxt" and "get_error nxt = 0" and "floor_ms (now nxt) \<noteq> fps_second st"
  shows "fps_window s t =
           (if floor_ms t \<noteq> fps_second s
            then (s\<lparr>fps := fps_accum s, fps_accum := 1, fps_second := floor_ms t\<rparr>,
                  [Log_perf_fps (fps_accum s)])
            else (s\<lparr>fps_accum := fps_accum s + 1\<rparr>, []))
         \<and> fps_second (fst (fps_window s t)) = floor_ms t
         \<and> (case dump_loop fmt_ts fp js st (its @ [nxt]) of
              (r, st', es) \<Rightarrow>
                published es = [fps_accum st + of_nat (length its)]
                \<and> fps st' = fps_accum st + of_nat (length its) \<and> fps_accum st' = 1
                \<and> fps_second st' = floor_ms (now nxt))
         \<and> published (snd (snd (dump_loop fmt_ts fp js loop_init (take 4 six_frames)))) = []
         \<and> published (snd (snd (dump_loop fmt_ts fp js loop_init (take 5 six_frames)))) = [4]
         \<and> published (snd (snd (dump_loop fmt_ts fp js loop_init six_frames))) = [4]"
proof -
  have step: "fps_window s t =
           (if floor_ms t \<noteq> fps_second s
            then (s\<lparr>fps := fps_accum s, fps_accum := 1, fps_second := floor_ms t\<rparr>,
                  [Log_perf_fps (fps_accum s)])
            else (s\<lparr>fps_accum := fps_accum s + 1\<rparr>, []))"
    by (simp add: fps_window_def Let_def)
  have mark: "fps_second (fst (fps_window s t)) = floor_ms t"
    by (simp add: step)
  from window_count [OF assms, of fmt_ts fp js]
  have run: "case dump_loop fmt_ts fp js st (its @ [nxt]) of
              (r, st', es) \<Rightarrow>
                published es = [fps_accum st + of_nat (length its)]
                \<and> fps st' = fps_accum st + of_nat (length its) \<and> fps_accum st' = 1
                \<and> fps_second st' = floor_ms (now nxt)"
    by (auto split: prod.splits)
  show ?thesis
    using step mark run six_frames_published [of fmt_ts fp js] by blast
qed

theorem fps_windowing_witness:
  "list_all (\<lambda>it. \<not> stop it \<and> get_error it = 0 \<and> floor_ms (now it) = fps_second loop_init)
     (take 4 six_frames)
   \<and> \<not> stop (six_frames ! 4) \<and> get_error (six_frames ! 4) = 0
   \<and> floor_ms (now (six_frames ! 4)) \<noteq> fps_second loop_init
   \<and> published (snd (snd (dump_loop (\<lambda>t. []) None False loop_init
        (take 4 six_frames @ [six_frames ! 4])))) = [4]"
proof -
  have a: "\<forall>it\<in>set (take 4 six_frames).
      \<not> stop it \<and> get_error it = 0 \<and> floor_ms (now it) = fps_second loop_init"
    by (simp add: six_frames_def ok_at_def loop_init_def floor_ms_def)
  have b: "\<not> stop (six_frames ! 4)" "get_error (six_frames ! 4) = 0"
    "floor_ms (now (six_frames ! 4)) \<noteq> fps_second loop_init"
    by (simp_all add: six_frames_def ok_at_def loop_init_def floor_ms_def)
  from fps_windowing [OF a b, of loop_init 0 "\<lambda>t. []" None False]
  have "published (snd (snd (dump_loop (\<lambda>t. []) None False loop_init
        (take 4 six_frames @ [six_frames ! 4])))) = [fps_accum loop_init + of_nat (length (take 4 six_frames))]"
    by (auto split: prod.splits)
  then have "published (snd (snd (dump_loop (\<lambda>t. []) None False loop_init
        (take 4 six_frames @ [six_frames ! 4])))) = [4]"
    by (simp add: six_frames_def loop_init_def)
  with a b show ?thesis
    by (simp add: list_all_iff)
qed

subsection \<open>Read outcomes\<close>



subsection \<open>Consuming without an output\<close>

text \<open>
  C10. Without an output path (no \<^verbatim>\<open>--output\<close> on the command line, or an empty one)
  nothing is written to any stream, whatever the sink delivers. A frame read
  successfully still updates the FPS window and nothing else: on a new second the
  accumulator is published and becomes the \<open>fps\<close>, the accumulator restarts at 1 and
  the marker is the floor of the clock; otherwise the accumulator grows by 1. The loop
  runs on for as long as frames or timeouts arrive and the stop flag is clear. When the
  flag is then seen set, \<^verbatim>\<open>_dump_sink\<close> returns 0 and \<^verbatim>\<open>main\<close> exits with 0. This holds for
  every command line that \<^verbatim>\<open>main\<close> accepts and that has no \<^verbatim>\<open>--output\<close>.
\<close>

theorem consume_only:
  assumes "list_all running pre" and "stop s"
    and "\<not> stop ok" and "get_error ok = 0"
    and "list_all (\<lambda>x. \<not> is_output x) argv"
    and "parse_opts (options_init lvl colored) argv = Inr o_st"
    and "sink_name o_st = Some name" and "name \<noteq> []"
  shows "written (snd (dump_sink fmt_ts fopen_ok memsink_ok its name t None js)) = []
       \<and> dump_sink fmt_ts fopen_ok memsink_ok its name t (Some []) js
           = dump_sink fmt_ts fopen_ok memsink_ok its name t None js
       \<and> main fmt_ts fopen_ok memsink_ok its lvl colored argv
           = (map_option abs (fst (dump_sink fmt_ts fopen_ok memsink_ok its name (sink_timeout o_st)
                                     None (output_json o_st))),
              Install_signal_handlers
              # snd (dump_sink fmt_ts fopen_ok memsink_ok its name (sink_timeout o_st)
                       None (output_json o_st)))
       \<and> written (snd (main fmt_ts fopen_ok memsink_ok its lvl colored argv)) = []
       \<and> dump_loop fmt_ts None js st (ok # its) =
           (case dump_loop fmt_ts None js
                   (st\<lparr>fps := (if floor_ms (now ok) \<noteq> fps_second st then fps_accum st else fps st),
                       fps_accum := (if floor_ms (now ok) \<noteq> fps_second st then 1
                                     else fps_accum st + 1),
                       fps_second := floor_ms (now ok)\<rparr>)
                   its of
              (r, st', es) \<Rightarrow>
                (r, st',
                 Memsink_client_get
                 # (if floor_ms (now ok) \<noteq> fps_second st then [Log_perf_fps (fps_accum st)] else [])
                 @ es))
       \<and> fst (dump_loop fmt_ts None js st pre) = None
       \<and> fst (dump_sink fmt_ts fopen_ok True (pre @ s # its) name t None js) = Some 0
       \<and> fst (main fmt_ts fopen_ok True (pre @ s # its) lvl colored argv) = Some 0"
proof -
  have op: "output_path o_st = None"
    using assms(6,5) by (rule parse_opts_no_output) (simp add: options_init_def)
  note m = main_run [OF assms(6,7,8), unfolded op]
  have a: "written (snd (dump_sink fmt_ts fopen_ok memsink_ok its name t None js)) = []"
    by (rule sink_None_written)
  have b: "written (snd (main fmt_ts fopen_ok memsink_ok its lvl colored argv)) = []"
    by (simp add: m sink_None_written)
  have c: "dump_loop fmt_ts None js st (ok # its) =
           (case dump_loop fmt_ts None js
                   (st\<lparr>fps := (if floor_ms (now ok) \<noteq> fps_second st then fps_accum st else fps st),
                       fps_accum := (if floor_ms (now ok) \<noteq> fps_second st then 1
                                     else fps_accum st + 1),
                       fps_second := floor_ms (now ok)\<rparr>)
                   its of
              (r, st', es) \<Rightarrow>
                (r, st',
                 Memsink_client_get
                 # (if floor_ms (now ok) \<noteq> fps_second st then [Log_perf_fps (fps_accum st)] else [])
                 @ es))"
    using dump_loop_ok [OF assms(3,4), of fmt_ts None js st its] by simp
  have d: "fst (dump_loop fmt_ts None js st pre) = None"
    using assms(1) by (rule loop_running)
  have e: "fst (dump_sink fmt_ts fopen_ok True (pre @ s # its) name t None js) = Some 0" for t js
    using loop_exit_stop [OF assms(1,2)] by (simp add: dump_sink_run [OF open_output_facts(4)])
  have f: "fst (main fmt_ts fopen_ok True (pre @ s # its) lvl colored argv) = Some 0"
    by (simp add: m e)
  show ?thesis
    using a sink_empty_path [of fmt_ts fopen_ok memsink_ok its name t js]
      m [of fmt_ts fopen_ok memsink_ok its] b c d e [of t js] f
    by blast
qed

theorem consume_only_witness:
  "list_all running [ok_at 0, ok_at 1] \<and> stop stop_now
   \<and> \<not> stop ok_man \<and> get_error ok_man = 0
   \<and> list_all (\<lambda>x. \<not> is_output x) [O_OUTPUT_JSON, O_SINK ''test'', O_SINK_TIMEOUT (Some 5)]
   \<and> parse_opts (options_init 0 False) [O_OUTPUT_JSON, O_SINK ''test'', O_SINK_TIMEOUT (Some 5)]
       = Inr \<lparr>sink_name = Some ''test'', sink_timeout = 5, output_path = None,
              output_json = True, log_level = 0, log_colored = False\<rparr>
   \<and> ''test'' \<noteq> []
   \<and> dump_loop (\<lambda>t. []) None True loop_init (ok_man # [])
       = (None, \<lparr>fps = 0, fps_accum = 1, fps_second = 1, base64_data = None\<rparr>,
          [Memsink_client_get, Log_perf_fps 0])
   \<and> fst (main (\<lambda>t. []) True True ([ok_at 0, ok_at 1] @ stop_now # []) 0 False
        [O_OUTPUT_JSON, O_SINK ''test'', O_SINK_TIMEOUT (Some 5)]) = Some 0
   \<and> written (snd (main (\<lambda>t. []) True True [ok_man, ok_at 0, stop_now] 0 False
        [O_OUTPUT_JSON, O_SINK ''test'', O_SINK_TIMEOUT (Some 5)])) = []
   \<and> main (\<lambda>t. []) True True ([ok_at 0, ok_at 1] @ stop_now # []) 0 False [O_SINK ''test'']
       = (Some 0, [Install_signal_handlers, Frame_init, Memsink_init ''test'' 1,
                   Memsink_client_get, Memsink_client_get, Log_perf_fps 1,
                   Memsink_destroy, Frame_destroy])"
proof -
  let ?o = "\<lparr>sink_name = Some ''test'', sink_timeout = 5, output_path = None,
              output_json = True, log_level = 0, log_colored = False\<rparr>"
  have h: "list_all running [ok_at 0, ok_at 1]" "stop stop_now"
    "\<not> stop ok_man" "get_error ok_man = 0"
    "list_all (\<lambda>x. \<not> is_output x) [O_OUTPUT_JSON, O_SINK ''test'', O_SINK_TIMEOUT (Some 5)]"
    "parse_opts (options_init 0 False) [O_OUTPUT_JSON, O_SINK ''test'', O_SINK_TIMEOUT (Some 5)]
       = Inr ?o"
    "sink_name ?o = Some ''test''" "''test'' \<noteq> []"
    by (simp_all add: running_def ok_at_def ok_man_def stop_now_def options_init_def opt_number_def)
  have v: "floor_ms (now ok_man) = 1" "fps_second loop_init = 0" "fps_accum loop_init = 0"
    "fps loop_init = 0"
    by (simp_all add: ok_man_def loop_init_def floor_ms_def)
  have m: "main (\<lambda>t. []) True True ([ok_at 0, ok_at 1] @ stop_now # []) 0 False [O_SINK ''test'']
       = (Some 0, [Install_signal_handlers, Frame_init, Memsink_init ''test'' 1,
                   Memsink_client_get, Memsink_client_get, Log_perf_fps 1,
                   Memsink_destroy, Frame_destroy])"
    by (simp add: main_def options_init_def dump_sink_def open_output_def ok_at_def stop_now_def
        loop_init_def fps_window_def emit_def floor_ms_def cleanup_def Let_def)
  note step = consume_only [OF h, where fmt_ts = "\<lambda>t. []" and js = True and st = loop_init
      and its = "[]" and fopen_ok = True]
  have 1: "dump_loop (\<lambda>t. []) None True loop_init (ok_man # [])
       = (None, \<lparr>fps = 0, fps_accum = 1, fps_second = 1, base64_data = None\<rparr>,
          [Memsink_client_get, Log_perf_fps 0])"
    using step by (simp add: v loop_init_def del: dump_loop.simps(2))
  have 2: "fst (main (\<lambda>t. []) True True ([ok_at 0, ok_at 1] @ stop_now # []) 0 False
        [O_OUTPUT_JSON, O_SINK ''test'', O_SINK_TIMEOUT (Some 5)]) = Some 0"
    using step by blast
  have 3: "written (snd (main (\<lambda>t. []) True True [ok_man, ok_at 0, stop_now] 0 False
        [O_OUTPUT_JSON, O_SINK ''test'', O_SINK_TIMEOUT (Some 5)])) = []"
    using consume_only [OF h, where fmt_ts = "\<lambda>t. []" and fopen_ok = True and memsink_ok = True
      and its = "[ok_man, ok_at 0, stop_now]"]
    by blast
  from h(1,2,3,4,5,6,8) 1 2 3 m show ?thesis
    by blast
qed

subsection \<open>Standard output as the output\<close>

text \<open>
  C9. With the output path \<open>-\<close> every effect that names a stream names standard
  output, what is written there is the output of each frame read, and no stream is
  closed at all, whether \<^verbatim>\<open>_dump_sink\<close> leaves through \<^verbatim>\<open>ok\<close> or through \<^verbatim>\<open>error\<close>.
  Standard output is not closed for any output path. A regular file that was opened is
  closed, once, whenever \<^verbatim>\<open>_dump_sink\<close> returns, with 0 or with -1.
\<close>

theorem stdout_never_closed:
  assumes "p \<noteq> []" and "p \<noteq> ''-''"
    and "fst (dump_sink fmt_ts True memsink_ok its name t (Some p) js) = Some r"
  shows "set (map target (snd (dump_sink fmt_ts fopen_ok memsink_ok its name t (Some ''-'') js)))
           \<subseteq> {None, Some Stdout}
       \<and> written (snd (dump_sink fmt_ts fopen_ok True its name t (Some ''-'') js))
           = concat (map (frame_output fmt_ts (Some Stdout) js) (frames_read its))
       \<and> closed (snd (dump_sink fmt_ts fopen_ok memsink_ok its name t (Some ''-'') js)) = []
       \<and> Stdout \<notin> set (closed (snd (dump_sink fmt_ts fopen_ok memsink_ok its name t path js)))
       \<and> closed (snd (dump_sink fmt_ts True memsink_ok its name t (Some p) js)) = [File p]"
proof -
  have w: "written (snd (dump_sink fmt_ts fopen_ok True its name t (Some ''-'') js))
           = concat (map (frame_output fmt_ts (Some Stdout) js) (frames_read its))"
    by (simp add: dump_sink_run [OF open_output_facts(5)] written_append loop_written
        cleanup_facts split: option.splits)
  show ?thesis
    using sink_stdout_targets [of fmt_ts fopen_ok memsink_ok its name t js] w
      sink_stdout_closed [of fmt_ts fopen_ok memsink_ok its name t js]
      sink_closed_any [of fmt_ts fopen_ok memsink_ok its name t path js]
      sink_file_closed [OF assms]
    by blast
qed

theorem stdout_never_closed_witness:
  "''out.bin'' \<noteq> [] \<and> ''out.bin'' \<noteq> ''-''
   \<and> dump_sink (\<lambda>t. []) True True [ok_at 0, stop_now] ''test'' 1 (Some ''out.bin'') False
      = (Some 0, [Frame_init, Fopen ''out.bin'', Memsink_init ''test'' 1, Memsink_client_get,
                  Fwrite (File ''out.bin'') [], Fflush (File ''out.bin''),
                  Fclose (File ''out.bin''), Memsink_destroy, Frame_destroy])
   \<and> dump_sink (\<lambda>t. []) True True [ok_at 0, stop_now] ''test'' 1 (Some ''-'') False
      = (Some 0, [Frame_init, Memsink_init ''test'' 1, Memsink_client_get,
                  Fwrite Stdout [], Fflush Stdout, Memsink_destroy, Frame_destroy])
   \<and> closed (snd (dump_sink (\<lambda>t. []) True True [ok_at 0, stop_now] ''test'' 1
        (Some ''out.bin'') False)) = [File ''out.bin'']"
proof -
  have a: "''out.bin'' \<noteq> []" "''out.bin'' \<noteq> ''-''"
    by simp_all
  have b: "dump_sink (\<lambda>t. []) True True [ok_at 0, stop_now] ''test'' 1 (Some ''out.bin'') False
      = (Some 0, [Frame_init, Fopen ''out.bin'', Memsink_init ''test'' 1, Memsink_client_get,
                  Fwrite (File ''out.bin'') [], Fflush (File ''out.bin''),
                  Fclose (File ''out.bin''), Memsink_destroy, Frame_destroy])"
    by (simp add: dump_sink_def open_output_def ok_at_def stop_now_def frame0_def
        loop_init_def fps_window_def emit_def floor_ms_def cleanup_def Let_def)
  have c: "dump_sink (\<lambda>t. []) True True [ok_at 0, stop_now] ''test'' 1 (Some ''-'') False
      = (Some 0, [Frame_init, Memsink_init ''test'' 1, Memsink_client_get,
                  Fwrite Stdout [], Fflush Stdout, Memsink_destroy, Frame_destroy])"
    by (simp add: dump_sink_def open_output_def ok_at_def stop_now_def frame0_def
        loop_init_def fps_window_def emit_def floor_ms_def cleanup_def Let_def)
  have d: "fst (dump_sink (\<lambda>t. []) True True [ok_at 0, stop_now] ''test'' 1 (Some ''out.bin'') False)
      = Some 0"
    by (simp add: b)
  from stdout_never_closed [OF a d]
  have "closed (snd (dump_sink (\<lambda>t. []) True True [ok_at 0, stop_now] ''test'' 1
        (Some ''out.bin'') False)) = [File ''out.bin'']"
    by blast
  with a b c show ?thesis
    by blast
qed

subsection \<open>\<^verbatim>\<open>--output-json\<close> without \<^verbatim>\<open>--output\<close>\<close>

lemma parse_opts_json_Inl:
  assumes "parse_opts o1 argv = Inl x"
    and "list_all (\<lambda>x. \<not> is_output x) argv"
  shows "parse_opts o2 (filter (\<lambda>x. x \<noteq> O_OUTPUT_JSON) argv) = Inl x"
  using assms
  by (induction o1 argv arbitrary: o2 rule: parse_opts.induct) (auto split: sum.splits)

lemma parse_opts_json_Inr:
  assumes "parse_opts o1 argv = Inr s1"
    and "list_all (\<lambda>x. \<not> is_output x) argv"
    and "output_path o1 = None" and "output_path o2 = None"
    and "sink_name o1 = sink_name o2" and "sink_timeout o1 = sink_timeout o2"
  shows "\<exists>s2. parse_opts o2 (filter (\<lambda>x. x \<noteq> O_OUTPUT_JSON) argv) = Inr s2
           \<and> output_path s1 = None \<and> output_path s2 = None
           \<and> sink_name s1 = sink_name s2 \<and> sink_timeout s1 = sink_timeout s2"
  using assms
  by (induction o1 argv arbitrary: o2 rule: parse_opts.induct) (auto split: sum.splits)

text \<open>
  C4 as stated does not hold: \<^verbatim>\<open>main\<close> checks only that \<^verbatim>\<open>--sink\<close> is given. With \<^verbatim>\<open>--sink test --output-json\<close> and
  no \<^verbatim>\<open>--output\<close> the sink is attached, a frame is read, and the exit code is 0.
\<close>

theorem output_json_without_output_counterexample:
  "main (\<lambda>t. []) True True [ok_at 0, stop_now] 0 False [O_SINK ''test'', O_OUTPUT_JSON]
     = (Some 0, [Install_signal_handlers, Frame_init, Memsink_init ''test'' 1,
                 Memsink_client_get, Memsink_destroy, Frame_destroy])"
  by (simp add: main_def options_init_def dump_sink_def open_output_def ok_at_def stop_now_def
      loop_init_def fps_window_def emit_def floor_ms_def cleanup_def Let_def)

text \<open>
  C4, as the code has it. On a command line without \<^verbatim>\<open>--output\<close> the option
  \<^verbatim>\<open>--output-json\<close> is ignored: \<^verbatim>\<open>main\<close> does exactly what it does on the same command
  line with \<^verbatim>\<open>--output-json\<close> taken out.
\<close>

theorem output_json_without_output_ignored:
  assumes "list_all (\<lambda>x. \<not> is_output x) argv"
  shows "main fmt_ts fopen_ok memsink_ok its lvl colored argv
           = main fmt_ts fopen_ok memsink_ok its lvl colored (filter (\<lambda>x. x \<noteq> O_OUTPUT_JSON) argv)"
proof -
  let ?o = "options_init lvl colored"
  let ?argv' = "filter (\<lambda>x. x \<noteq> O_OUTPUT_JSON) argv"
  have op: "output_path ?o = None"
    by (simp add: options_init_def)
  show ?thesis
  proof (cases "parse_opts ?o argv")
    case (Inl x)
    with parse_opts_json_Inl [OF Inl assms, of ?o] show ?thesis
      by (simp add: main_def)
  next
    case (Inr s1)
    from parse_opts_json_Inr [OF Inr assms op op refl refl]
    obtain s2 where s2: "parse_opts ?o ?argv' = Inr s2"
      and eq: "output_path s1 = None" "output_path s2 = None"
        "sink_name s1 = sink_name s2" "sink_timeout s1 = sink_timeout s2"
      by blast
    show ?thesis
      using Inr s2 eq
        sink_None_json [of fmt_ts fopen_ok memsink_ok its _ "sink_timeout s2" "output_json s1"]
        sink_None_json [of fmt_ts fopen_ok memsink_ok its _ "sink_timeout s2" "output_json s2"]
      by (simp add: main_def split: option.splits)
  qed
qed

theorem output_json_without_output_ignored_witness:
  "list_all (\<lambda>x. \<not> is_output x) [O_SINK ''test'', O_OUTPUT_JSON]
   \<and> main (\<lambda>t. []) True True [ok_at 0, stop_now] 0 False [O_SINK ''test'', O_OUTPUT_JSON]
       = main (\<lambda>t. []) True True [ok_at 0, stop_now] 0 False [O_SINK ''test'']"
proof -
  have a: "list_all (\<lambda>x. \<not> is_output x) [O_SINK ''test'', O_OUTPUT_JSON]"
    by simp
  from output_json_without_output_ignored [OF a, of "\<lambda>t. []" True True "[ok_at 0, stop_now]" 0 False]
  have "main (\<lambda>t. []) True True [ok_at 0, stop_now] 0 False [O_SINK ''test'', O_OUTPUT_JSON]
       = main (\<lambda>t. []) True True [ok_at 0, stop_now] 0 False
           (filter (\<lambda>x. x \<noteq> O_OUTPUT_JSON) [O_SINK ''test'', O_OUTPUT_JSON])" .
  moreover have "filter (\<lambda>x. x \<noteq> O_OUTPUT_JSON) [O_SINK ''test'', O_OUTPUT_JSON] = [O_SINK ''test'']"
    by simp
  ultimately show ?thesis
    using a by simp
qed

subsection \<open>Base64\<close>

lemma b64_table_facts:
  "length b64_table = 64" "distinct b64_table"
  "CHR ''='' \<notin> set b64_table" "CHR 0x22 \<notin> set b64_table" "CHR 0x0A \<notin> set b64_table"
  by (simp_all add: b64_table_def)

lemma b64_char_in: "b64_char i \<in> set b64_table"
  by (simp add: b64_char_def b64_table_facts(1))

lemma b64_char_neq:
  "b64_char i \<noteq> CHR ''=''" "b64_char i \<noteq> CHR 0x22" "b64_char i \<noteq> CHR 0x0A"
  using b64_char_in [of i] b64_table_facts(3,4,5) by metis+

lemma b64_value_char: "b64_value (b64_char i) = Some (i mod 64)"
proof -
  have "map_of (zip b64_table [0..<64]) (b64_table ! (i mod 64)) = Some ([0..<64] ! (i mod 64))"
    by (rule map_of_zip_nth) (simp_all add: b64_table_facts)
  then show ?thesis
    by (simp add: b64_value_def b64_char_def)
qed

lemma sextets:
  fixes t :: nat
  assumes "t < 16777216"
  shows "b64_triple (t div 262144 mod 64) (t div 4096 mod 64) (t div 64 mod 64) (t mod 64) = t"
proof -
  have a: "t = (t div 64) * 64 + t mod 64" by simp
  have "t div 4096 = t div 64 div 64"
    by (simp add: div_mult2_eq)
  then have b: "t div 64 = (t div 4096) * 64 + t div 64 mod 64"
    by simp
  have "t div 262144 = t div 4096 div 64"
    by (simp add: div_mult2_eq)
  then have c: "t div 4096 = (t div 262144) * 64 + t div 4096 mod 64"
    by simp
  have "t div 262144 < 64"
    using assms by (simp add: less_mult_imp_div_less)
  then have d: "t div 262144 mod 64 = t div 262144"
    by simp
  show ?thesis
    unfolding b64_triple_def d using a b c by linarith
qed

lemma sextets2:
  fixes t :: nat
  assumes "t < 16777216" "t mod 64 = 0"
  shows "b64_triple (t div 262144 mod 64) (t div 4096 mod 64) (t div 64 mod 64) 0 = t"
  using sextets [OF assms(1)] assms(2) by simp

lemma sextets1:
  fixes t :: nat
  assumes "t < 16777216" "t mod 4096 = 0"
  shows "b64_triple (t div 262144 mod 64) (t div 4096 mod 64) 0 0 = t"
proof -
  have "t mod (64 * 64) = 64 * (t div 64 mod 64) + t mod 64"
    by (rule mod_mult2_eq)
  with assms(2) have "t mod 64 = 0" "t div 64 mod 64 = 0"
    by simp_all
  then show ?thesis
    using sextets [OF assms(1)] by simp
qed

lemma unat_byte: "unat (a :: byte) < 256"
  using unsigned_less [of a, where ?'a = nat] by simp

lemma of_nat_byte:
  assumes "n mod 256 = unat b"
  shows "(of_nat n :: byte) = b"
proof -
  have "unat (of_nat n :: byte) = unat b"
    using assms by (simp add: unat_of_nat)
  then show ?thesis
    by (simp add: word_unat_eq_iff)
qed

lemma bytes3:
  fixes a b c :: byte
  defines "t \<equiv> unat a * 65536 + unat b * 256 + unat c"
  shows "t < 16777216" "(of_nat (t div 65536) :: byte) = a" "(of_nat (t div 256) :: byte) = b"
    "(of_nat t :: byte) = c"
proof -
  note l = unat_byte [of a] unat_byte [of b] unat_byte [of c]
  show "t < 16777216"
    using l unfolding t_def by linarith
  have "t div 65536 = unat a"
    using l unfolding t_def by linarith
  then show "(of_nat (t div 65536) :: byte) = a"
    by simp
  have "t div 256 = unat a * 256 + unat b"
    using l unfolding t_def by linarith
  moreover have "(unat a * 256 + unat b) mod 256 = unat b"
    using l by simp
  ultimately have "t div 256 mod 256 = unat b"
    by simp
  then show "(of_nat (t div 256) :: byte) = b"
    by (rule of_nat_byte)
  have "t = (unat a * 256 + unat b) * 256 + unat c"
    unfolding t_def by simp
  then have "t mod 256 = unat c mod 256"
    by (simp only: mod_mult_self3)
  then have "t mod 256 = unat c"
    using l by simp
  then show "(of_nat t :: byte) = c"
    by (rule of_nat_byte)
qed

lemma decode_group3:
  "base64_decode (b64_char x1 # b64_char x2 # b64_char x3 # b64_char x4 # rest) =
     (case base64_decode rest of
        Some bs \<Rightarrow>
          Some (of_nat (b64_triple (x1 mod 64) (x2 mod 64) (x3 mod 64) (x4 mod 64) div 65536)
                # of_nat (b64_triple (x1 mod 64) (x2 mod 64) (x3 mod 64) (x4 mod 64) div 256)
                # of_nat (b64_triple (x1 mod 64) (x2 mod 64) (x3 mod 64) (x4 mod 64)) # bs)
      | None \<Rightarrow> None)"
  by (simp add: b64_value_char b64_char_neq)

lemma decode_group2:
  "base64_decode [b64_char x1, b64_char x2, b64_char x3, CHR ''=''] =
     Some [of_nat (b64_triple (x1 mod 64) (x2 mod 64) (x3 mod 64) 0 div 65536),
           of_nat (b64_triple (x1 mod 64) (x2 mod 64) (x3 mod 64) 0 div 256)]"
  by (simp add: b64_value_char b64_char_neq)

lemma decode_group1:
  "base64_decode [b64_char x1, b64_char x2, CHR ''='', CHR ''=''] =
     Some [of_nat (b64_triple (x1 mod 64) (x2 mod 64) 0 0 div 65536)]"
  by (simp add: b64_value_char b64_char_neq)

lemma base64_roundtrip: "base64_decode (base64_encode bs) = Some bs"
proof (induction bs rule: base64_encode.induct)
  case 1
  show ?case by simp
next
  case (2 a)
  define t where "t = unat a * 65536 + unat (0::byte) * 256 + unat (0::byte)"
  note bt = bytes3 [of a 0 0, folded t_def]
  have t': "t = unat a * 16 * 4096"
    by (simp add: t_def)
  have m: "t mod 4096 = 0"
    unfolding t' by (rule mod_mult_self2_is_0)
  have e: "base64_encode [a] = [b64_char (t div 262144), b64_char (t div 4096), CHR ''='', CHR ''='']"
    by (simp add: t_def Let_def)
  show ?case
    unfolding e decode_group1 sextets1 [OF bt(1) m] bt(2) ..
next
  case (3 a b)
  define t where "t = unat a * 65536 + unat b * 256 + unat (0::byte)"
  note bt = bytes3 [of a b 0, folded t_def]
  have t': "t = (unat a * 1024 + unat b * 4) * 64"
    by (simp add: t_def)
  have m: "t mod 64 = 0"
    unfolding t' by (rule mod_mult_self2_is_0)
  have e: "base64_encode [a, b] =
      [b64_char (t div 262144), b64_char (t div 4096), b64_char (t div 64), CHR ''='']"
    by (simp add: t_def Let_def)
  show ?case
    unfolding e decode_group2 sextets2 [OF bt(1) m] bt(2,3) ..
next
  case (4 a b c rest)
  define t where "t = unat a * 65536 + unat b * 256 + unat c"
  note bt = bytes3 [of a b c, folded t_def]
  have e: "base64_encode (a # b # c # rest) =
      b64_char (t div 262144) # b64_char (t div 4096) # b64_char (t div 64) # b64_char t
        # base64_encode rest"
    by (simp add: t_def Let_def)
  show ?case
    unfolding e decode_group3 sextets [OF bt(1)] bt(2,3,4) by (simp add: "4.IH")
qed

lemma base64_no_quote: "CHR 0x22 \<notin> set (base64_encode bs)" "CHR 0x0A \<notin> set (base64_encode bs)"
  by (induction bs rule: base64_encode.induct)
     (simp_all add: b64_char_neq [THEN not_sym] Let_def)

lemma json_head_quote: "\<exists>pre. json_head fmt_ts f = pre @ [CHR 0x22]"
proof -
  have "json_head fmt_ts f =
     (''{\"size\": '' @ show_nat (used f)
     @ '', \"width\": '' @ show_nat (unat (width f))
     @ '', \"height\": '' @ show_nat (unat (height f)) @ '',''
     @ '' \"format\": '' @ show_nat (unat (format f))
     @ '', \"stride\": '' @ show_nat (unat (stride f))
     @ '', \"online\": '' @ show_nat (if online f then 1 else 0) @ '',''
     @ '' \"grab_ts\": '' @ fmt_ts (grab_ts f)
     @ '', \"encode_begin_ts\": '' @ fmt_ts (encode_begin_ts f)
     @ '', \"encode_end_ts\": '' @ fmt_ts (encode_end_ts f) @ '',''
     @ '' \"data\": '') @ [CHR 0x22]"
    by (simp add: json_head_def)
  then show ?thesis
    by blast
qed

lemma data_field_line: "data_field (json_line fmt_ts f (base64_encode bs)) = base64_encode bs"
proof -
  obtain pre where h: "json_head fmt_ts f = pre @ [CHR 0x22]"
    using json_head_quote by blast
  have r: "drop 3 (rev (json_line fmt_ts f (base64_encode bs)))
             = rev (base64_encode bs) @ CHR 0x22 # rev pre"
    by (simp add: json_line_def h)
  have "takeWhile (\<lambda>c. c \<noteq> CHR 0x22) (rev (base64_encode bs) @ CHR 0x22 # rev pre)
          = rev (base64_encode bs)"
    using base64_no_quote(1) [of bs] by (auto simp: takeWhile_tail)
  then show ?thesis
    by (simp add: data_field_def r)
qed

lemma frame_output_json:
  "frame_output fmt_ts (Some fp) True =
     (\<lambda>f. [Fprintf fp (json_line fmt_ts f (base64_encode (take (used f) (data f)))), Fflush fp])"
  by (rule ext) (simp add: frame_output_def emit_def Let_def)

subsection \<open>JSON records\<close>

text \<open>
  C8. In JSON mode the writes of the loop are, for each frame read successfully and in
  order, one \<^verbatim>\<open>fprintf\<close> of a record line followed by one flush. The line is the head
  with the nine fields, the base64 text of the first \<open>used\<close> bytes of the buffer, and
  \<^verbatim>\<open>"}\<close> with a newline, which is its last and (the base64 text having none) closing
  character. The \<^verbatim>\<open>data\<close> field of the line is that base64 text, and decoding it gives
  the first \<open>used\<close> bytes of the buffer back.
\<close>

theorem json_emission:
  assumes "used f \<le> length (data f)"
  shows "written (snd (snd (dump_loop fmt_ts (Some fp) True st its)))
           = concat (map (\<lambda>f. [Fprintf fp (json_line fmt_ts f
                                   (base64_encode (take (used f) (data f)))), Fflush fp])
                         (frames_read its))
       \<and> emit fmt_ts (Some fp) True st f
           = (st\<lparr>base64_data := Some (base64_encode (take (used f) (data f)))\<rparr>,
              [Fprintf fp (json_line fmt_ts f (base64_encode (take (used f) (data f)))),
               Fflush fp])
       \<and> json_line fmt_ts f (base64_encode (take (used f) (data f)))
           = ''{\"size\": '' @ show_nat (used f)
             @ '', \"width\": '' @ show_nat (unat (width f))
             @ '', \"height\": '' @ show_nat (unat (height f))
             @ '', \"format\": '' @ show_nat (unat (format f))
             @ '', \"stride\": '' @ show_nat (unat (stride f))
             @ '', \"online\": '' @ show_nat (if online f then 1 else 0)
             @ '', \"grab_ts\": '' @ fmt_ts (grab_ts f)
             @ '', \"encode_begin_ts\": '' @ fmt_ts (encode_begin_ts f)
             @ '', \"encode_end_ts\": '' @ fmt_ts (encode_end_ts f)
             @ '', \"data\": \"'' @ base64_encode (take (used f) (data f)) @ ''\"}'' @ [CHR 0x0A]
       \<and> last (json_line fmt_ts f (base64_encode (take (used f) (data f)))) = CHR 0x0A
       \<and> CHR 0x0A \<notin> set (base64_encode (take (used f) (data f)))
       \<and> data_field (json_line fmt_ts f (base64_encode (take (used f) (data f))))
           = base64_encode (take (used f) (data f))
       \<and> base64_decode (data_field (json_line fmt_ts f (base64_encode (take (used f) (data f)))))
           = Some (take (used f) (data f))
       \<and> length (take (used f) (data f)) = used f"
proof -
  have a: "written (snd (snd (dump_loop fmt_ts (Some fp) True st its)))
           = concat (map (\<lambda>f. [Fprintf fp (json_line fmt_ts f
                                   (base64_encode (take (used f) (data f)))), Fflush fp])
                         (frames_read its))"
    by (simp add: loop_written frame_output_json)
  have b: "emit fmt_ts (Some fp) True st f
           = (st\<lparr>base64_data := Some (base64_encode (take (used f) (data f)))\<rparr>,
              [Fprintf fp (json_line fmt_ts f (base64_encode (take (used f) (data f)))),
               Fflush fp])"
    by (simp add: emit_def Let_def)
  have c: "json_line fmt_ts f (base64_encode (take (used f) (data f)))
           = ''{\"size\": '' @ show_nat (used f)
             @ '', \"width\": '' @ show_nat (unat (width f))
             @ '', \"height\": '' @ show_nat (unat (height f))
             @ '', \"format\": '' @ show_nat (unat (format f))
             @ '', \"stride\": '' @ show_nat (unat (stride f))
             @ '', \"online\": '' @ show_nat (if online f then 1 else 0)
             @ '', \"grab_ts\": '' @ fmt_ts (grab_ts f)
             @ '', \"encode_begin_ts\": '' @ fmt_ts (encode_begin_ts f)
             @ '', \"encode_end_ts\": '' @ fmt_ts (encode_end_ts f)
             @ '', \"data\": \"'' @ base64_encode (take (used f) (data f)) @ ''\"}'' @ [CHR 0x0A]"
    by (simp add: json_line_def json_head_def)
  have d: "last (json_line fmt_ts f (base64_encode (take (used f) (data f)))) = CHR 0x0A"
    by (simp add: json_line_def)
  have e: "CHR 0x0A \<notin> set (base64_encode (take (used f) (data f)))"
    by (rule base64_no_quote)
  have g: "data_field (json_line fmt_ts f (base64_encode (take (used f) (data f))))
           = base64_encode (take (used f) (data f))"
    by (rule data_field_line)
  have h: "base64_decode (data_field (json_line fmt_ts f (base64_encode (take (used f) (data f)))))
           = Some (take (used f) (data f))"
    by (simp only: g base64_roundtrip)
  have i: "length (take (used f) (data f)) = used f"
    using assms by simp
  show ?thesis
    using a b c d e g h i by blast
qed

theorem json_emission_witness:
  "used frame_man \<le> length (data frame_man)
   \<and> json_line (\<lambda>t. ''0.000'') frame_man (base64_encode (take (used frame_man) (data frame_man)))
       = ''{\"size\": 3, \"width\": 640, \"height\": 480, \"format\": 7, \"stride\": 1280, \"online\": 1, \"grab_ts\": 0.000, \"encode_begin_ts\": 0.000, \"encode_end_ts\": 0.000, \"data\": \"TWFu\"}'' @ [CHR 0x0A]
   \<and> base64_decode (data_field (json_line (\<lambda>t. ''0.000'') frame_man
        (base64_encode (take (used frame_man) (data frame_man))))) = Some [77, 97, 110]"
proof -
  have a: "used frame_man \<le> length (data frame_man)"
    by (simp add: frame_man_def)
  have b: "take (used frame_man) (data frame_man) = [77, 97, 110]"
    by (simp add: frame_man_def)
  have c: "json_line (\<lambda>t. ''0.000'') frame_man (base64_encode (take (used frame_man) (data frame_man)))
       = ''{\"size\": 3, \"width\": 640, \"height\": 480, \"format\": 7, \"stride\": 1280, \"online\": 1, \"grab_ts\": 0.000, \"encode_begin_ts\": 0.000, \"encode_end_ts\": 0.000, \"data\": \"TWFu\"}'' @ [CHR 0x0A]"
    unfolding b
    by (simp add: json_line_def json_head_def frame_man_def show_nat.simps digit_char_def
        b64_char_def b64_table_def)
  from json_emission [OF a, of "\<lambda>t. ''0.000''" Stdout loop_init "[]"]
  have "base64_decode (data_field (json_line (\<lambda>t. ''0.000'') frame_man
        (base64_encode (take (used frame_man) (data frame_man)))))
          = Some (take (used frame_man) (data frame_man))"
    by blast
  with a b c show ?thesis
    by simp
qed

section \<open>Properties of the encoder\<close>

subsection \<open>Shared facts\<close>

lemma lookup_update:
  "lookup (update h a v) b = (if a = b \<and> a < length h then Some v else lookup h b)"
  by (simp add: lookup_def update_def)

lemma lookup_release: "lookup (release h a) b = (if a = b then None else lookup h b)"
  by (simp add: lookup_def release_def)

lemma lookup_alloc:
  "fst (alloc h v) = length h"
  "lookup (snd (alloc h v)) b = (if b = length h then Some v else lookup h b)"
  by (simp_all add: lookup_def alloc_def nth_append)

lemma lookup_less: "lookup h a = Some v \<Longrightarrow> a < length h"
  by (simp add: lookup_def split: if_splits)

lemma heap_cpu_init: "encoder_init [] = (1, heap_cpu)"
  by (simp add: encoder_init_def alloc_def heap_cpu_def)

lemma heap_omx_prepared:
  "encoder_ops 3 1 (heap_cpu, \<lparr>n_workers = 2\<rparr>) [Select ENCODER_TYPE_OMX, Prepare (\<lambda>i. True)]
     = Inr (heap_omx, \<lparr>n_workers = 2\<rparr>)"
  by code_simp

lemma use_fallback_runtime:
  assumes "lookup h encoder = Some (Encoder e)" and "lookup h (run e) = Some (Runtime r)"
  shows "use_fallback h (run e) = Inr (update h (run e) (Runtime (r\<lparr>run_type := ENCODER_TYPE_CPU\<rparr>)))"
    and "runtime_type (update h (run e) (Runtime (r\<lparr>run_type := ENCODER_TYPE_CPU\<rparr>))) encoder
           = Some ENCODER_TYPE_CPU"
    and "lookup (update h (run e) (Runtime (r\<lparr>run_type := ENCODER_TYPE_CPU\<rparr>))) encoder
           = Some (Encoder e)"
proof -
  have ne: "run e \<noteq> encoder"
    using assms by auto
  have lt: "run e < length h"
    using assms(2) by (rule lookup_less)
  show "use_fallback h (run e) = Inr (update h (run e) (Runtime (r\<lparr>run_type := ENCODER_TYPE_CPU\<rparr>)))"
    using assms by (simp add: use_fallback_def)
  show "lookup (update h (run e) (Runtime (r\<lparr>run_type := ENCODER_TYPE_CPU\<rparr>))) encoder
           = Some (Encoder e)"
    using assms ne by (simp add: lookup_update)
  then show "runtime_type (update h (run e) (Runtime (r\<lparr>run_type := ENCODER_TYPE_CPU\<rparr>))) encoder
           = Some ENCODER_TYPE_CPU"
    using lt by (simp add: runtime_type_def lookup_update)
qed

lemma compress_cpu:
  assumes "lookup h encoder = Some (Encoder e)" and "lookup h (run e) = Some (Runtime r)"
    and "run_type r = ENCODER_TYPE_CPU"
  shows "encoder_compress_buffer omx_res h encoder worker_number buf_index
           = Inr (0, h, [Jpeg_encoder_compress_buffer buf_index (quality e)])"
  using assms by (simp add: encoder_compress_buffer_def)

subsection \<open>Compressing a buffer\<close>

text \<open>
  C3. With the runtime variant CPU the call goes to the CPU codec and returns 0, whatever
  the worker. With the runtime variant OMX it goes to the instance in the slot of
  \<open>worker_number\<close>; when that instance reports a failure the call returns -1, the runtime
  variant of the whole encoder is CPU from then on, and the CPU codec is not called for
  this buffer: every later call, for any worker, goes to the CPU codec.
\<close>

theorem compress_routing:
  assumes "lookup h encoder = Some (Encoder e)" and "lookup h (run e) = Some (Runtime r)"
  shows "(run_type r = ENCODER_TYPE_CPU \<longrightarrow>
            encoder_compress_buffer omx_res h encoder worker_number buf_index
              = Inr (0, h, [Jpeg_encoder_compress_buffer buf_index (quality e)]))
       \<and> (run_type r = ENCODER_TYPE_OMX \<and> omxs r = Some arr \<and> lookup h arr = Some (Omxs xs)
            \<and> worker_number < length xs \<and> xs ! worker_number = Some p \<and> lookup h p = Some Omx \<longrightarrow>
            encoder_compress_buffer omx_res h encoder worker_number buf_index
              = (if omx_res < 0
                 then Inr (- 1, update h (run e) (Runtime (r\<lparr>run_type := ENCODER_TYPE_CPU\<rparr>)),
                           [Omx_encoder_compress_buffer p buf_index,
                            Log ''HW compressing error, falling back to CPU''])
                 else Inr (0, h, [Omx_encoder_compress_buffer p buf_index]))
            \<and> runtime_type (update h (run e) (Runtime (r\<lparr>run_type := ENCODER_TYPE_CPU\<rparr>))) encoder
                = Some ENCODER_TYPE_CPU
            \<and> encoder_compress_buffer omx_res' (update h (run e) (Runtime (r\<lparr>run_type := ENCODER_TYPE_CPU\<rparr>)))
                  encoder worker_number' buf_index'
                = Inr (0, update h (run e) (Runtime (r\<lparr>run_type := ENCODER_TYPE_CPU\<rparr>)),
                       [Jpeg_encoder_compress_buffer buf_index' (quality e)]))"
proof -
  let ?h = "update h (run e) (Runtime (r\<lparr>run_type := ENCODER_TYPE_CPU\<rparr>))"
  note fb = use_fallback_runtime [OF assms]
  have lt: "run e < length h"
    using assms(2) by (rule lookup_less)
  have cpu: "run_type r = ENCODER_TYPE_CPU \<longrightarrow>
            encoder_compress_buffer omx_res h encoder worker_number buf_index
              = Inr (0, h, [Jpeg_encoder_compress_buffer buf_index (quality e)])"
    using compress_cpu [OF assms] by simp
  have omx: "encoder_compress_buffer omx_res h encoder worker_number buf_index
              = (if omx_res < 0
                 then Inr (- 1, ?h, [Omx_encoder_compress_buffer p buf_index,
                            Log ''HW compressing error, falling back to CPU''])
                 else Inr (0, h, [Omx_encoder_compress_buffer p buf_index]))"
    if "run_type r = ENCODER_TYPE_OMX" "omxs r = Some arr" "lookup h arr = Some (Omxs xs)"
      "worker_number < length xs" "xs ! worker_number = Some p" "lookup h p = Some Omx"
    using assms that fb(1) by (simp add: encoder_compress_buffer_def)
  have later: "encoder_compress_buffer omx_res' ?h encoder worker_number' buf_index'
                = Inr (0, ?h, [Jpeg_encoder_compress_buffer buf_index' (quality e)])"
    using fb(3) lt by (intro compress_cpu [where r = "r\<lparr>run_type := ENCODER_TYPE_CPU\<rparr>"])
      (simp_all add: lookup_update)
  show ?thesis
    using cpu omx fb(2) later by blast
qed

theorem compress_routing_witness:
  "lookup heap_cpu 1 = Some (Encoder \<lparr>enc_type = ENCODER_TYPE_CPU, quality = 80, run = 0\<rparr>)
   \<and> encoder_compress_buffer (- 1) heap_cpu 1 0 5
       = Inr (0, heap_cpu, [Jpeg_encoder_compress_buffer 5 80])
   \<and> lookup heap_omx 1 = Some (Encoder \<lparr>enc_type = ENCODER_TYPE_OMX, quality = 80, run = 0\<rparr>)
   \<and> lookup heap_omx 2 = Some (Omxs [Some 3, Some 4]) \<and> lookup heap_omx 4 = Some Omx
   \<and> encoder_compress_buffer 0 heap_omx 1 1 5 = Inr (0, heap_omx, [Omx_encoder_compress_buffer 4 5])
   \<and> encoder_compress_buffer (- 1) heap_omx 1 1 5
       = Inr (- 1, update heap_omx 0 (Runtime \<lparr>run_type = ENCODER_TYPE_CPU, n_omxs = 2, omxs = Some 2\<rparr>),
              [Omx_encoder_compress_buffer 4 5, Log ''HW compressing error, falling back to CPU''])"
proof -
  have c: "lookup heap_cpu 1 = Some (Encoder \<lparr>enc_type = ENCODER_TYPE_CPU, quality = 80, run = 0\<rparr>)"
    "lookup heap_cpu (run \<lparr>enc_type = ENCODER_TYPE_CPU, quality = 80, run = 0\<rparr>)
       = Some (Runtime \<lparr>run_type = ENCODER_TYPE_CPU, n_omxs = 0, omxs = None\<rparr>)"
    by (simp_all add: heap_cpu_def lookup_def)
  have o: "lookup heap_omx 1 = Some (Encoder \<lparr>enc_type = ENCODER_TYPE_OMX, quality = 80, run = 0\<rparr>)"
    "lookup heap_omx (run \<lparr>enc_type = ENCODER_TYPE_OMX, quality = 80, run = 0\<rparr>)
       = Some (Runtime \<lparr>run_type = ENCODER_TYPE_OMX, n_omxs = 2, omxs = Some 2\<rparr>)"
    "lookup heap_omx 2 = Some (Omxs [Some 3, Some 4])" "lookup heap_omx 4 = Some Omx"
    by (simp_all add: heap_omx_def lookup_def)
  from compress_routing [OF c, where omx_res = "- 1" and worker_number = 0 and buf_index = 5]
  have 1: "encoder_compress_buffer (- 1) heap_cpu 1 0 5
       = Inr (0, heap_cpu, [Jpeg_encoder_compress_buffer 5 80])"
    by simp
  from compress_routing [OF o(1,2), where arr = 2 and xs = "[Some 3, Some 4]"
      and worker_number = 1 and p = 4 and omx_res = 0 and buf_index = 5] o(3,4)
  have 2: "encoder_compress_buffer 0 heap_omx 1 1 5 = Inr (0, heap_omx, [Omx_encoder_compress_buffer 4 5])"
    by simp
  from compress_routing [OF o(1,2), where arr = 2 and xs = "[Some 3, Some 4]"
      and worker_number = 1 and p = 4 and omx_res = "- 1" and buf_index = 5] o(3,4)
  have 3: "encoder_compress_buffer (- 1) heap_omx 1 1 5
       = Inr (- 1, update heap_omx 0 (Runtime \<lparr>run_type = ENCODER_TYPE_CPU, n_omxs = 2, omxs = Some 2\<rparr>),
              [Omx_encoder_compress_buffer 4 5, Log ''HW compressing error, falling back to CPU''])"
    by simp
  from c(1) o(1,3,4) 1 2 3 show ?thesis
    by blast
qed

subsection \<open>Facts about the runtime variant, the loops and the heap\<close>

lemma runtime_typeD:
  assumes "runtime_type h encoder = Some t"
  obtains e r where "lookup h encoder = Some (Encoder e)" and "lookup h (run e) = Some (Runtime r)"
    and "run_type r = t"
  using assms by (auto simp: runtime_type_def split: option.splits obj.splits)

lemma runtime_typeI:
  assumes "lookup h encoder = Some (Encoder e)" and "lookup h (run e) = Some (Runtime r)"
  shows "runtime_type h encoder = Some (run_type r)"
  using assms by (simp add: runtime_type_def)

lemma select_keeps_runtime:
  assumes "runtime_type h encoder = Some t"
  shows "\<exists>h'. select_type h encoder t' = Inr h' \<and> runtime_type h' encoder = Some t"
proof -
  from assms obtain e r where e: "lookup h encoder = Some (Encoder e)"
    and r: "lookup h (run e) = Some (Runtime r)" and t: "run_type r = t"
    by (rule runtime_typeD)
  have ne: "encoder \<noteq> run e"
    using e r by auto
  have lt: "encoder < length h"
    using e by (rule lookup_less)
  have "runtime_type (update h encoder (Encoder (e\<lparr>enc_type := t'\<rparr>))) encoder = Some t"
    using e r t ne lt by (simp add: runtime_type_def lookup_update)
  then show ?thesis
    using e by (simp add: select_type_def)
qed

lemma prepare_live_cpu:
  assumes "runtime_type h encoder = Some ENCODER_TYPE_CPU"
  shows "encoder_prepare_live live_res h encoder = Inr (h, [])"
proof -
  from assms obtain e r where "lookup h encoder = Some (Encoder e)"
    and "lookup h (run e) = Some (Runtime r)" and "run_type r = ENCODER_TYPE_CPU"
    by (rule runtime_typeD)
  then show ?thesis
    by (simp add: encoder_prepare_live_def)
qed

lemma compress_cpu_runtime:
  assumes "runtime_type h encoder = Some ENCODER_TYPE_CPU"
  shows "\<exists>es. encoder_compress_buffer omx_res h encoder worker_number buf_index = Inr (0, h, es)"
proof -
  from assms obtain e r where "lookup h encoder = Some (Encoder e)"
    and "lookup h (run e) = Some (Runtime r)" and "run_type r = ENCODER_TYPE_CPU"
    by (rule runtime_typeD)
  then show ?thesis
    by (simp add: compress_cpu)
qed

lemma op_keeps_cpu:
  assumes "runtime_type h encoder = Some ENCODER_TYPE_CPU" and "\<not> is_prepare x"
  shows "\<exists>h'. encoder_op omx_max encoder (h, dev) x = Inr (h', dev)
           \<and> runtime_type h' encoder = Some ENCODER_TYPE_CPU"
proof (cases x)
  case (Select t)
  with select_keeps_runtime [OF assms(1), of t] show ?thesis
    by auto
next
  case (Prepare init_ok)
  with assms(2) show ?thesis
    by simp
next
  case (Prepare_live live_res)
  with prepare_live_cpu [OF assms(1), of live_res] assms(1) show ?thesis
    by simp
next
  case (Compress w b res)
  with compress_cpu_runtime [OF assms(1), of res w b] assms(1) show ?thesis
    by auto
qed

lemma ops_keep_cpu:
  assumes "runtime_type h encoder = Some ENCODER_TYPE_CPU" and "list_all (\<lambda>x. \<not> is_prepare x) ops"
  shows "\<exists>h'. encoder_ops omx_max encoder (h, dev) ops = Inr (h', dev)
           \<and> runtime_type h' encoder = Some ENCODER_TYPE_CPU"
  using assms
proof (induction ops arbitrary: h)
  case Nil
  then show ?case by simp
next
  case (Cons x ops)
  from Cons.prems have x: "\<not> is_prepare x" and rest: "list_all (\<lambda>x. \<not> is_prepare x) ops"
    by simp_all
  from op_keeps_cpu [OF Cons.prems(1) x, of omx_max dev]
  obtain h1 where 1: "encoder_op omx_max encoder (h, dev) x = Inr (h1, dev)"
    and 2: "runtime_type h1 encoder = Some ENCODER_TYPE_CPU"
    by blast
  from Cons.IH [OF 2 rest] 1 show ?case
    by simp
qed

lemma instances_replicate: "instances (replicate k None) = []"
  by (induction k) simp_all

lemma length_update: "length (update h a v) = length h"
  by (simp add: update_def)

lemma prepare_loop_result:
  assumes "lookup h arr = Some (Omxs xs)" and "length xs = n" and "index \<le> n"
    and "drop index xs = replicate (n - index) None"
  shows "\<exists>h' xs' es.
           prepare_loop init_ok h arr n index
             = Inr (\<forall>i. index \<le> i \<and> i < n \<longrightarrow> init_ok i, h', es)
           \<and> lookup h' arr = Some (Omxs xs') \<and> length xs' = n
           \<and> take index xs' = take index xs
           \<and> instances (drop index xs') = [length h..<length h']
           \<and> length h \<le> length h'
           \<and> (\<forall>a. a < length h \<and> a \<noteq> arr \<longrightarrow> lookup h' a = lookup h a)
           \<and> (\<forall>a. length h \<le> a \<and> a < length h' \<longrightarrow> lookup h' a = Some Omx)"
  using assms
proof (induction "n - index" arbitrary: h xs index)
  case 0
  then have "index = n"
    by simp
  with "0.prems" show ?case
    by (auto simp: prepare_loop.simps [of _ _ _ n n])
next
  case (Suc k)
  then have lt: "index < n"
    by simp
  have arr: "arr < length h"
    using Suc.prems(1) by (rule lookup_less)
  show ?case
  proof (cases "init_ok index")
    case False
    let ?h' = "update h arr (Omxs (xs[index := None]))"
    have "\<not> (\<forall>i. index \<le> i \<and> i < n \<longrightarrow> init_ok i)"
      using False lt by auto
    then have run: "prepare_loop init_ok h arr n index
        = Inr (\<forall>i. index \<le> i \<and> i < n \<longrightarrow> init_ok i, ?h', [Omx_encoder_init None])"
      using Suc.prems lt False by (simp add: prepare_loop.simps [of init_ok h arr n index])
    have "xs ! index = drop index xs ! 0"
      using Suc.prems(2) lt by simp
    also have "\<dots> = None"
      using Suc.prems(4) lt by simp
    finally have "xs[index := None] = xs"
      using Suc.prems(2) lt by (simp add: list_update_same_conv)
    then have "instances (drop index (xs[index := None])) = []"
      using Suc.prems(4) by (simp add: instances_replicate)
    then show ?thesis
      using run Suc.prems arr by (auto simp: lookup_update length_update)
  next
    case True
    let ?p = "length h"
    let ?xs2 = "xs[index := Some ?p]"
    let ?h2 = "update (h @ [Some Omx]) arr (Omxs ?xs2)"
    have l2: "lookup ?h2 arr = Some (Omxs ?xs2)"
      using arr by (simp add: lookup_update)
    have "drop (Suc index) xs = drop 1 (drop index xs)"
      by simp
    also have "\<dots> = replicate (n - Suc index) None"
      unfolding Suc.prems(4) by simp
    finally have d2: "drop (Suc index) ?xs2 = replicate (n - Suc index) None"
      by simp
    have k: "k = n - Suc index"
      using Suc.hyps(2) by simp
    from Suc.hyps(1) [OF k l2 _ _ d2] Suc.prems(2) lt
    obtain h' xs' es where
      r: "prepare_loop init_ok ?h2 arr n (Suc index)
            = Inr (\<forall>i. Suc index \<le> i \<and> i < n \<longrightarrow> init_ok i, h', es)"
      and a: "lookup h' arr = Some (Omxs xs')" "length xs' = n"
      and t: "take (Suc index) xs' = take (Suc index) ?xs2"
      and i: "instances (drop (Suc index) xs') = [length ?h2..<length h']"
      and g: "length ?h2 \<le> length h'"
      and old: "\<forall>a. a < length ?h2 \<and> a \<noteq> arr \<longrightarrow> lookup h' a = lookup ?h2 a"
      and new: "\<forall>a. length ?h2 \<le> a \<and> a < length h' \<longrightarrow> lookup h' a = Some Omx"
      by auto
    have len2: "length ?h2 = Suc (length h)"
      by (simp add: length_update)
    have all: "(\<forall>i. index \<le> i \<and> i < n \<longrightarrow> init_ok i) = (\<forall>i. Suc index \<le> i \<and> i < n \<longrightarrow> init_ok i)"
    proof -
      have "(index \<le> i \<and> i < n) = (i = index \<or> (Suc index \<le> i \<and> i < n))" for i
        using lt by auto
      then show ?thesis
        using True by auto
    qed
    have run: "prepare_loop init_ok h arr n index
        = Inr (\<forall>i. index \<le> i \<and> i < n \<longrightarrow> init_ok i, h', Omx_encoder_init (Some ?p) # es)"
      using Suc.prems lt True r all
      by (simp add: prepare_loop.simps [of init_ok h arr n index] alloc_def)
    have "xs' ! index = take (Suc index) xs' ! index"
      by simp
    also have "\<dots> = ?xs2 ! index"
      unfolding t by simp
    finally have nth: "xs' ! index = Some ?p"
      using Suc.prems(2) lt by simp
    have "take index xs' = take index (take (Suc index) xs')"
      by (simp add: min_def)
    also have "\<dots> = take index ?xs2"
      unfolding t by (simp add: min_def)
    finally have tk: "take index xs' = take index xs"
      by simp
    have "drop index xs' = Some ?p # drop (Suc index) xs'"
      using Cons_nth_drop_Suc [of index xs'] nth a(2) lt by simp
    then have ins: "instances (drop index xs') = [length h..<length h']"
      using i g len2 by (simp add: upt_conv_Cons)
    have old': "\<forall>a. a < length h \<and> a \<noteq> arr \<longrightarrow> lookup h' a = lookup h a"
      using old len2 by (simp add: lookup_update) (simp add: lookup_def nth_append)
    have new': "\<forall>a. length h \<le> a \<and> a < length h' \<longrightarrow> lookup h' a = Some Omx"
    proof (intro allI impI)
      fix a
      assume b: "length h \<le> a \<and> a < length h'"
      show "lookup h' a = Some Omx"
      proof (cases "a = length h")
        case True
        then have "lookup h' a = lookup ?h2 a"
          using old len2 arr by simp
        also have "\<dots> = Some Omx"
          using True arr by (simp add: lookup_update) (simp add: lookup_def)
        finally show ?thesis .
      next
        case False
        with b new len2 show ?thesis
          by simp
      qed
    qed
    show ?thesis
      using run a tk ins g len2 old' new' by auto
  qed
qed

lemma lookup_append: "lookup (h @ [x]) a = (if a = length h then x else lookup h a)"
  by (simp add: lookup_def nth_append)

lemma prepare_hardware_result:
  fixes dev :: device_t and omx_max :: "32 word"
  assumes e: "lookup h encoder = Some (Encoder e)" and r: "lookup h (run e) = Some (Runtime r)"
    and t: "enc_type e = ENCODER_TYPE_OMX"
  defines "n \<equiv> (if n_workers dev > omx_max then omx_max else n_workers dev)"
  shows "\<exists>h' es xs.
           encoder_prepare omx_max init_ok h encoder dev = Inr (dev\<lparr>n_workers := n\<rparr>, h', es)
           \<and> lookup h' encoder = Some (Encoder e)
           \<and> lookup h' (run e)
               = Some (Runtime (r\<lparr>run_type := (if \<forall>i < unat n. init_ok i
                                                  then ENCODER_TYPE_OMX else ENCODER_TYPE_CPU),
                                    n_omxs := n, omxs := Some (length h)\<rparr>))
           \<and> lookup h' (length h) = Some (Omxs xs) \<and> length xs = unat n
           \<and> instances xs = [Suc (length h)..<length h']
           \<and> (\<forall>a. Suc (length h) \<le> a \<and> a < length h' \<longrightarrow> lookup h' a = Some Omx)
           \<and> (n_workers dev > omx_max \<longrightarrow>
                Log ''OMX-based encoder can only work with %u worker threads; forced --workers=%u''
                  \<in> set es)"
proof -
  let ?r3 = "r\<lparr>run_type := ENCODER_TYPE_OMX, n_omxs := n, omxs := Some (length h)\<rparr>"
  let ?h1 = "update h (run e) (Runtime (r\<lparr>run_type := ENCODER_TYPE_OMX\<rparr>))"
  let ?h2 = "?h1 @ [Some (Omxs (replicate (unat n) None))]"
  let ?h3 = "update ?h2 (run e) (Runtime ?r3)"
  have ne: "run e \<noteq> encoder"
    using e r by auto
  have lr: "run e < length h" and le: "encoder < length h"
    using e r by (auto dest: lookup_less)
  have len3: "length ?h3 = Suc (length h)"
    by (simp add: length_update)
  have l3: "lookup ?h3 (length h) = Some (Omxs (replicate (unat n) None))"
    using lr by (simp add: lookup_update lookup_append length_update)
  have l3e: "lookup ?h3 encoder = Some (Encoder e)"
    using e ne le lr by (simp add: lookup_update lookup_append length_update)
  have l3r: "lookup ?h3 (run e) = Some (Runtime ?r3)"
    using lr by (simp add: lookup_update length_update)
  from prepare_loop_result [OF l3, of "unat n" 0 init_ok]
  obtain h4 xs es3 where
    run: "prepare_loop init_ok ?h3 (length h) (unat n) 0 = Inr (\<forall>i < unat n. init_ok i, h4, es3)"
    and a: "lookup h4 (length h) = Some (Omxs xs)" "length xs = unat n"
    and i: "instances xs = [Suc (length h)..<length h4]"
    and old: "\<forall>a. a < Suc (length h) \<and> a \<noteq> length h \<longrightarrow> lookup h4 a = lookup ?h3 a"
    and new: "\<forall>a. Suc (length h) \<le> a \<and> a < length h4 \<longrightarrow> lookup h4 a = Some Omx"
    unfolding len3 by auto
  have l4e: "lookup h4 encoder = Some (Encoder e)" and l4r: "lookup h4 (run e) = Some (Runtime ?r3)"
    using old l3e l3r le lr by auto
  have l4r': "run e < length h4"
    using l4r by (rule lookup_less)
  let ?h5 = "update h4 (run e) (Runtime (?r3\<lparr>run_type := ENCODER_TYPE_CPU\<rparr>))"
  have fb: "use_fallback h4 (run e) = Inr ?h5"
    using l4r by (simp add: use_fallback_def)
  let ?es1 = "[Log ''Initializing encoder ...'', Log ''Using JPEG quality: %u%%'']"
  let ?es2 = "if n_workers dev > omx_max
      then [Log ''OMX-based encoder can only work with %u worker threads; forced --workers=%u'']
      else []"
  have unfold: "encoder_prepare omx_max init_ok h encoder dev =
      (if \<forall>i < unat n. init_ok i then Inr (dev\<lparr>n_workers := n\<rparr>, h4, ?es1 @ ?es2 @ es3)
       else Inr (dev\<lparr>n_workers := n\<rparr>, ?h5,
                 ?es1 @ ?es2 @ es3 @ [Log ''Can't initialize selected encoder, using CPU instead it'']))"
  proof (cases "n_workers dev > omx_max")
    case True
    then have n: "n = omx_max"
      by (simp add: n_def)
    show ?thesis
      using e r t run fb True unfolding n
      by (simp add: encoder_prepare_def Let_def alloc_def length_update)
  next
    case False
    then have n: "n = n_workers dev"
      by (simp add: n_def)
    show ?thesis
      using e r t run fb False unfolding n
      by (simp add: encoder_prepare_def Let_def alloc_def length_update)
  qed
  show ?thesis
  proof (cases "\<forall>i < unat n. init_ok i")
    case True
    then show ?thesis
      using unfold l4e l4r a i new by (auto simp: n_def)
  next
    case False
    have "lookup ?h5 encoder = Some (Encoder e)"
      using l4e ne by (simp add: lookup_update)
    moreover have "lookup ?h5 (run e) = Some (Runtime (?r3\<lparr>run_type := ENCODER_TYPE_CPU\<rparr>))"
      using l4r' by (simp add: lookup_update)
    moreover have "lookup ?h5 (length h) = Some (Omxs xs)"
      using a(1) lr by (simp add: lookup_update)
    moreover have "\<forall>a. Suc (length h) \<le> a \<and> a < length ?h5 \<longrightarrow> lookup ?h5 a = Some Omx"
      using new lr by (simp add: lookup_update length_update)
    moreover have "length ?h5 = length h4"
      by (simp add: length_update)
    ultimately show ?thesis
      using False unfold a(2) i by (auto simp: n_def)
  qed
qed

lemma length_release: "length (release h a) = length h"
  by (simp add: release_def)

lemma destroy_loop_result:
  assumes "lookup h arr = Some (Omxs xs)" and "length xs = n" and "index \<le> n"
    and "distinct (instances (drop index xs))"
    and "list_all (\<lambda>p. lookup h p = Some Omx) (instances (drop index xs))"
  shows "\<exists>h'. destroy_loop h arr n index
                 = Inr (h', map Omx_encoder_destroy (instances (drop index xs)))
           \<and> length h' = length h
           \<and> (\<forall>a. a \<notin> set (instances (drop index xs)) \<longrightarrow> lookup h' a = lookup h a)
           \<and> (\<forall>a. a \<in> set (instances (drop index xs)) \<longrightarrow> lookup h' a = None)"
  using assms
proof (induction "n - index" arbitrary: h index)
  case 0
  then have "index = n"
    by simp
  with "0.prems" show ?case
    by (simp add: destroy_loop.simps [of _ _ n n])
next
  case (Suc k)
  then have lt: "index < n"
    by simp
  have k: "k = n - Suc index"
    using Suc.hyps(2) by simp
  have dr: "drop index xs = xs ! index # drop (Suc index) xs"
    using Cons_nth_drop_Suc [of index xs] lt Suc.prems(2) by simp
  show ?case
  proof (cases "xs ! index")
    case None
    have same: "instances (drop index xs) = instances (drop (Suc index) xs)"
      by (simp add: dr None)
    from Suc.hyps(1) [OF k Suc.prems(1,2)] lt Suc.prems(4,5)
    obtain h' where
      "destroy_loop h arr n (Suc index)
         = Inr (h', map Omx_encoder_destroy (instances (drop (Suc index) xs)))"
      "length h' = length h"
      "\<forall>a. a \<notin> set (instances (drop (Suc index) xs)) \<longrightarrow> lookup h' a = lookup h a"
      "\<forall>a. a \<in> set (instances (drop (Suc index) xs)) \<longrightarrow> lookup h' a = None"
      unfolding same by auto
    then show ?thesis
      using Suc.prems(1,2) lt None unfolding same
      by (simp add: destroy_loop.simps [of h arr n index])
  next
    case (Some p)
    have ins: "instances (drop index xs) = p # instances (drop (Suc index) xs)"
      by (simp add: dr Some)
    have live: "lookup h p = Some Omx"
      and rest: "list_all (\<lambda>q. lookup h q = Some Omx) (instances (drop (Suc index) xs))"
      and np: "p \<notin> set (instances (drop (Suc index) xs))"
      and di: "distinct (instances (drop (Suc index) xs))"
      using Suc.prems(4,5) unfolding ins by simp_all
    have pa: "p \<noteq> arr"
      using live Suc.prems(1) by auto
    have l1: "lookup (release h p) arr = Some (Omxs xs)"
      using Suc.prems(1) pa by (simp add: lookup_release)
    have rest1: "list_all (\<lambda>q. lookup (release h p) q = Some Omx) (instances (drop (Suc index) xs))"
      using rest np by (auto simp: list_all_iff lookup_release)
    from Suc.hyps(1) [OF k l1 Suc.prems(2) _ di rest1] lt
    obtain h' where
      run: "destroy_loop (release h p) arr n (Suc index)
         = Inr (h', map Omx_encoder_destroy (instances (drop (Suc index) xs)))"
      and len: "length h' = length (release h p)"
      and old: "\<forall>a. a \<notin> set (instances (drop (Suc index) xs)) \<longrightarrow> lookup h' a = lookup (release h p) a"
      and gone: "\<forall>a. a \<in> set (instances (drop (Suc index) xs)) \<longrightarrow> lookup h' a = None"
      by auto
    have "destroy_loop h arr n index
            = Inr (h', map Omx_encoder_destroy (instances (drop index xs)))"
      using Suc.prems(1,2) lt Some live run unfolding ins
      by (simp add: destroy_loop.simps [of h arr n index])
    moreover have "length h' = length h"
      using len by (simp add: length_release)
    moreover have "\<forall>a. a \<notin> set (instances (drop index xs)) \<longrightarrow> lookup h' a = lookup h a"
      using old unfolding ins by (simp add: lookup_release)
    moreover have "\<forall>a. a \<in> set (instances (drop index xs)) \<longrightarrow> lookup h' a = None"
      using old gone np unfolding ins by (auto simp: lookup_release)
    ultimately show ?thesis
      by blast
  qed
qed

lemma destroy_result:
  assumes e: "lookup h encoder = Some (Encoder e)" and r: "lookup h (run e) = Some (Runtime r)"
    and wf: "encoder_wf h encoder"
  shows "\<exists>h'. encoder_destroy h encoder
                 = Inr (h', (case omxs r of
                               None \<Rightarrow> []
                             | Some arr \<Rightarrow>
                                 (case lookup h arr of
                                    Some (Omxs xs) \<Rightarrow> map Omx_encoder_destroy (instances xs) @ [Free arr]
                                  | _ \<Rightarrow> []))
                            @ [Free (run e), Free encoder])
           \<and> lookup h' encoder = None \<and> lookup h' (run e) = None
           \<and> (case omxs r of
                 None \<Rightarrow> True
               | Some arr \<Rightarrow>
                   lookup h' arr = None
                   \<and> (case lookup h arr of
                        Some (Omxs xs) \<Rightarrow> list_all (\<lambda>p. lookup h' p = None) (instances xs)
                      | _ \<Rightarrow> True))"
proof (cases "omxs r")
  case None
  have ne: "run e \<noteq> encoder"
    using e r by auto
  show ?thesis
    using e r None ne
    by (simp add: encoder_destroy_def free_def lookup_release)
next
  case (Some arr)
  from wf e r Some obtain xs where a: "lookup h arr = Some (Omxs xs)"
    and len: "length xs = unat (n_omxs r)" and di: "distinct (instances xs)"
    and live: "list_all (\<lambda>p. lookup h p = Some Omx) (instances xs)"
    by (auto simp: encoder_wf_def split: option.splits obj.splits)
  from destroy_loop_result [OF a len, of 0] di live
  obtain h1 where run: "destroy_loop h arr (unat (n_omxs r)) 0
        = Inr (h1, map Omx_encoder_destroy (instances xs))"
    and old: "\<forall>a. a \<notin> set (instances xs) \<longrightarrow> lookup h1 a = lookup h a"
    and gone: "\<forall>a. a \<in> set (instances xs) \<longrightarrow> lookup h1 a = None"
    by auto
  have notin: "arr \<notin> set (instances xs)" "run e \<notin> set (instances xs)" "encoder \<notin> set (instances xs)"
    using live a e r by (auto simp: list_all_iff)
  have ne: "run e \<noteq> encoder" "arr \<noteq> run e" "arr \<noteq> encoder"
    using e r a by auto
  have l1: "lookup h1 arr = Some (Omxs xs)" "lookup h1 (run e) = Some (Runtime r)"
    "lookup h1 encoder = Some (Encoder e)"
    using old notin a e r by simp_all
  let ?h' = "release (release (release h1 arr) (run e)) encoder"
  have d: "encoder_destroy h encoder
             = Inr (?h', map Omx_encoder_destroy (instances xs) @ [Free arr, Free (run e), Free encoder])"
    using e r Some run l1 ne
    by (simp add: encoder_destroy_def free_def lookup_release)
  have g: "list_all (\<lambda>p. lookup ?h' p = None) (instances xs)"
    using gone by (simp add: list_all_iff lookup_release)
  show ?thesis
    using d g Some a ne by (simp add: lookup_release)
qed

lemma destroy_twice:
  assumes "encoder_destroy h encoder = Inr (h', es)"
  shows "encoder_destroy h' encoder = Inl Invalid_pointer"
proof -
  have "lookup h' encoder = None"
    using assms
    by (auto simp: encoder_destroy_def free_def lookup_release
        split: option.splits obj.splits sum.splits)
  then show ?thesis
    by (simp add: encoder_destroy_def)
qed

lemma prepare_wf:
  assumes "lookup h' encoder = Some (Encoder e)" and "lookup h' (run e) = Some (Runtime r')"
    and "omxs r' = Some arr" and "lookup h' arr = Some (Omxs xs)" and "length xs = unat (n_omxs r')"
    and "instances xs = [lo..<length h']"
    and "\<forall>a. lo \<le> a \<and> a < length h' \<longrightarrow> lookup h' a = Some Omx"
  shows "encoder_wf h' encoder"
  using assms by (simp add: encoder_wf_def list_all_iff)

subsection \<open>Preparing the hardware backend\<close>

text \<open>
  C7. With the hardware backend selected, \<^verbatim>\<open>encoder_prepare\<close> never faults. A worker
  count above \<^verbatim>\<open>OMX_MAX_ENCODERS\<close> is replaced by that maximum in the device and a line
  is logged; the number of slots is the resulting worker count. The runtime variant is
  OMX when every allocation succeeds and CPU as soon as one fails; after a failure every
  compression, for any worker, goes to the CPU codec. Either way the encoder is left with
  good pointers.
\<close>

theorem prepare_hardware:
  assumes "lookup h encoder = Some (Encoder e)" and "lookup h (run e) = Some (Runtime r)"
    and "enc_type e = ENCODER_TYPE_OMX"
  shows "\<exists>h' es r'.
           encoder_prepare omx_max init_ok h encoder dev
             = Inr (dev\<lparr>n_workers := (if n_workers dev > omx_max then omx_max else n_workers dev)\<rparr>,
                    h', es)
           \<and> (n_workers dev > omx_max \<longrightarrow>
                Log ''OMX-based encoder can only work with %u worker threads; forced --workers=%u''
                  \<in> set es)
           \<and> lookup h' encoder = Some (Encoder e) \<and> lookup h' (run e) = Some (Runtime r')
           \<and> n_omxs r' = (if n_workers dev > omx_max then omx_max else n_workers dev)
           \<and> run_type r'
               = (if \<forall>i < unat (if n_workers dev > omx_max then omx_max else n_workers dev). init_ok i
                  then ENCODER_TYPE_OMX else ENCODER_TYPE_CPU)
           \<and> encoder_wf h' encoder
           \<and> ((\<exists>i < unat (if n_workers dev > omx_max then omx_max else n_workers dev). \<not> init_ok i) \<longrightarrow>
                (\<forall>omx_res worker_number buf_index.
                   encoder_compress_buffer omx_res h' encoder worker_number buf_index
                     = Inr (0, h', [Jpeg_encoder_compress_buffer buf_index (quality e)])))"
proof -
  let ?n = "if n_workers dev > omx_max then omx_max else n_workers dev"
  let ?t = "if \<forall>i < unat ?n. init_ok i then ENCODER_TYPE_OMX else ENCODER_TYPE_CPU"
  let ?r' = "r\<lparr>run_type := ?t, n_omxs := ?n, omxs := Some (length h)\<rparr>"
  from prepare_hardware_result [OF assms, where omx_max = omx_max and dev = dev and init_ok = init_ok]
  obtain h' es xs where
    run: "encoder_prepare omx_max init_ok h encoder dev = Inr (dev\<lparr>n_workers := ?n\<rparr>, h', es)"
    and e': "lookup h' encoder = Some (Encoder e)"
    and r': "lookup h' (run e) = Some (Runtime ?r')"
    and a: "lookup h' (length h) = Some (Omxs xs)" "length xs = unat ?n"
    and i: "instances xs = [Suc (length h)..<length h']"
    and new: "\<forall>a. Suc (length h) \<le> a \<and> a < length h' \<longrightarrow> lookup h' a = Some Omx"
    and log: "n_workers dev > omx_max \<longrightarrow>
                Log ''OMX-based encoder can only work with %u worker threads; forced --workers=%u''
                  \<in> set es"
    by blast
  have wf: "encoder_wf h' encoder"
    using e' r' _ a(1) _ i new by (rule prepare_wf) (simp_all add: a(2))
  have cpu: "encoder_compress_buffer omx_res h' encoder worker_number buf_index
                     = Inr (0, h', [Jpeg_encoder_compress_buffer buf_index (quality e)])"
    if "\<exists>i < unat ?n. \<not> init_ok i" for omx_res worker_number buf_index
    using e' r' by (rule compress_cpu) (use that in auto)
  have "n_omxs ?r' = ?n" "run_type ?r' = ?t"
    by simp_all
  with run log e' r' wf cpu show ?thesis
    by blast
qed

theorem prepare_hardware_witness:
  "lookup heap_selected 1 = Some (Encoder \<lparr>enc_type = ENCODER_TYPE_OMX, quality = 80, run = 0\<rparr>)
   \<and> encoder_prepare 3 (\<lambda>i. i \<noteq> 1) heap_selected 1 \<lparr>n_workers = 5\<rparr>
       = Inr (\<lparr>n_workers = 3\<rparr>, heap_partial,
              [Log ''Initializing encoder ...'', Log ''Using JPEG quality: %u%%'',
               Log ''OMX-based encoder can only work with %u worker threads; forced --workers=%u'',
               Omx_encoder_init (Some 3), Omx_encoder_init None,
               Log ''Can't initialize selected encoder, using CPU instead it''])
   \<and> fst (projr (encoder_prepare 3 (\<lambda>i. i \<noteq> 1) heap_selected 1 \<lparr>n_workers = 5\<rparr>))
       = \<lparr>n_workers = 3\<rparr>"
proof -
  have s: "lookup heap_selected 1 = Some (Encoder \<lparr>enc_type = ENCODER_TYPE_OMX, quality = 80, run = 0\<rparr>)"
    "lookup heap_selected (run \<lparr>enc_type = ENCODER_TYPE_OMX, quality = 80, run = 0\<rparr>)
       = Some (Runtime \<lparr>run_type = ENCODER_TYPE_CPU, n_omxs = 0, omxs = None\<rparr>)"
    "enc_type \<lparr>enc_type = ENCODER_TYPE_OMX, quality = 80, run = 0\<rparr> = ENCODER_TYPE_OMX"
    by (simp_all add: heap_selected_def lookup_def)
  have c: "encoder_prepare 3 (\<lambda>i. i \<noteq> 1) heap_selected 1 \<lparr>n_workers = 5\<rparr>
       = Inr (\<lparr>n_workers = 3\<rparr>, heap_partial,
              [Log ''Initializing encoder ...'', Log ''Using JPEG quality: %u%%'',
               Log ''OMX-based encoder can only work with %u worker threads; forced --workers=%u'',
               Omx_encoder_init (Some 3), Omx_encoder_init None,
               Log ''Can't initialize selected encoder, using CPU instead it''])"
    by code_simp
  from prepare_hardware [OF s, where omx_max = 3 and dev = "\<lparr>n_workers = 5\<rparr>"
      and init_ok = "\<lambda>i. i \<noteq> 1"]
  have "fst (projr (encoder_prepare 3 (\<lambda>i. i \<noteq> 1) heap_selected 1 \<lparr>n_workers = 5\<rparr>))
       = \<lparr>n_workers = 3\<rparr>"
    by auto
  with s(1) c show ?thesis
    by blast
qed

subsection \<open>Fallback\<close>

text \<open>
  C2 as stated does not hold in its last part. The encoder prepared for two workers
  falls back to CPU when a compression fails; a later \<^verbatim>\<open>encoder_prepare\<close> alone, with no
  selection in between, makes the runtime variant OMX again, because the fallback leaves
  the selected \<^verbatim>\<open>type\<close> of the \<^verbatim>\<open>encoder_t\<close> as it was.
\<close>

theorem fallback_restore_counterexample:
  "runtime_type heap_omx 1 = Some ENCODER_TYPE_OMX
   \<and> runtime_after (encoder_ops 3 1 (heap_omx, \<lparr>n_workers = 2\<rparr>) [Compress 0 0 (- 1)]) 1
       = Some ENCODER_TYPE_CPU
   \<and> runtime_after (encoder_ops 3 1 (heap_omx, \<lparr>n_workers = 2\<rparr>)
        [Compress 0 0 (- 1), Prepare always_ok]) 1 = Some ENCODER_TYPE_OMX
   \<and> \<not> is_select (Compress 0 0 (- 1)) \<and> \<not> is_select (Prepare always_ok)"
  by code_simp

text \<open>
  C2, as the code has it. Once the runtime variant is CPU, no sequence of selections,
  \<^verbatim>\<open>encoder_prepare_live\<close> calls and \<^verbatim>\<open>encoder_compress_buffer\<close> calls changes it or
  faults, whatever the hardware layer answers. Only \<^verbatim>\<open>encoder_prepare\<close> makes it OMX
  again, and it does so whenever the selected type is OMX and every allocation succeeds,
  with or without a selection before it.
\<close>

theorem fallback_monotone:
  assumes "runtime_type h encoder = Some ENCODER_TYPE_CPU"
    and "list_all (\<lambda>x. \<not> is_prepare x) ops"
    and "lookup h encoder = Some (Encoder e)" and "enc_type e = ENCODER_TYPE_OMX"
    and "\<forall>i < unat (if n_workers dev > omx_max then omx_max else n_workers dev). init_ok i"
  shows "(\<exists>h'. encoder_ops omx_max encoder (h, dev) ops = Inr (h', dev)
            \<and> runtime_type h' encoder = Some ENCODER_TYPE_CPU)
       \<and> runtime_after (encoder_ops omx_max encoder (h, dev) ops) encoder = Some ENCODER_TYPE_CPU
       \<and> runtime_after (encoder_ops omx_max encoder (h, dev) [Prepare init_ok]) encoder
           = Some ENCODER_TYPE_OMX"
proof -
  from ops_keep_cpu [OF assms(1,2), of omx_max dev]
  obtain h' where k: "encoder_ops omx_max encoder (h, dev) ops = Inr (h', dev)"
    "runtime_type h' encoder = Some ENCODER_TYPE_CPU"
    by blast
  then have a: "runtime_after (encoder_ops omx_max encoder (h, dev) ops) encoder
      = Some ENCODER_TYPE_CPU"
    by (simp add: runtime_after_def)
  from assms(1,3) obtain r where r: "lookup h (run e) = Some (Runtime r)"
    by (auto elim: runtime_typeD)
  let ?n = "if n_workers dev > omx_max then omx_max else n_workers dev"
  from prepare_hardware_result [OF assms(3) r assms(4),
      where omx_max = omx_max and dev = dev and init_ok = init_ok]
  obtain h1 es where p: "encoder_prepare omx_max init_ok h encoder dev
      = Inr (dev\<lparr>n_workers := ?n\<rparr>, h1, es)"
    and e1: "lookup h1 encoder = Some (Encoder e)"
    and r1: "lookup h1 (run e)
               = Some (Runtime (r\<lparr>run_type := (if \<forall>i < unat ?n. init_ok i
                                                  then ENCODER_TYPE_OMX else ENCODER_TYPE_CPU),
                                    n_omxs := ?n, omxs := Some (length h)\<rparr>))"
    by blast
  have "runtime_type h1 encoder = Some ENCODER_TYPE_OMX"
    using runtime_typeI [OF e1 r1] assms(5) by simp
  then have b: "runtime_after (encoder_ops omx_max encoder (h, dev) [Prepare init_ok]) encoder
           = Some ENCODER_TYPE_OMX"
    using p by (simp add: runtime_after_def)
  from k a b show ?thesis
    by blast
qed

theorem fallback_monotone_witness:
  "runtime_type heap_fallen 1 = Some ENCODER_TYPE_CPU
   \<and> list_all (\<lambda>x. \<not> is_prepare x)
        [Compress 1 0 0, Prepare_live (\<lambda>i. 0), Select ENCODER_TYPE_OMX, Compress 0 1 (- 1)]
   \<and> lookup heap_fallen 1 = Some (Encoder \<lparr>enc_type = ENCODER_TYPE_OMX, quality = 80, run = 0\<rparr>)
   \<and> runtime_after (encoder_ops 3 1 (heap_fallen, \<lparr>n_workers = 2\<rparr>)
        [Compress 1 0 0, Prepare_live (\<lambda>i. 0), Select ENCODER_TYPE_OMX, Compress 0 1 (- 1)]) 1
       = Some ENCODER_TYPE_CPU
   \<and> runtime_after (encoder_ops 3 1 (heap_fallen, \<lparr>n_workers = 2\<rparr>) [Prepare (\<lambda>i. True)]) 1
       = Some ENCODER_TYPE_OMX
   \<and> encoder_ops 3 1 (heap_omx, \<lparr>n_workers = 2\<rparr>) [Prepare_live (\<lambda>i. if i = 1 then - 1 else 0)]
       = Inr (heap_fallen, \<lparr>n_workers = 2\<rparr>)"
proof -
  have a: "runtime_type heap_fallen 1 = Some ENCODER_TYPE_CPU"
    "list_all (\<lambda>x. \<not> is_prepare x)
        [Compress 1 0 0, Prepare_live (\<lambda>i. 0), Select ENCODER_TYPE_OMX, Compress 0 1 (- 1)]"
    "lookup heap_fallen 1 = Some (Encoder \<lparr>enc_type = ENCODER_TYPE_OMX, quality = 80, run = 0\<rparr>)"
    "enc_type \<lparr>enc_type = ENCODER_TYPE_OMX, quality = 80, run = 0\<rparr> = ENCODER_TYPE_OMX"
    by (simp_all add: heap_fallen_def runtime_type_def lookup_def)
  have b: "\<forall>i < unat (if n_workers \<lparr>n_workers = 2\<rparr> > (3 :: 32 word) then 3 else n_workers \<lparr>n_workers = 2\<rparr>).
             (\<lambda>i. True) i"
    by simp
  have c: "encoder_ops 3 1 (heap_omx, \<lparr>n_workers = 2\<rparr>) [Prepare_live (\<lambda>i. if i = 1 then - 1 else 0)]
       = Inr (heap_fallen, \<lparr>n_workers = 2\<rparr>)"
    by code_simp
  from fallback_monotone [OF a b] a(1,2,3) c show ?thesis
    by blast
qed

subsection \<open>Destroying the encoder\<close>

text \<open>
  C5 as stated does not hold for a second call: \<^verbatim>\<open>encoder_destroy\<close> frees the
  \<^verbatim>\<open>encoder_t\<close> it is given, and a second call on the same pointer reads freed memory.
\<close>

theorem destroy_twice_counterexample:
  "encoder_destroy heap_cpu 1 = Inr (heap_gone, [Free 0, Free 1])
   \<and> encoder_destroy heap_gone 1 = Inl Invalid_pointer"
  by code_simp

text \<open>
  C5, as the code has it. One call of \<^verbatim>\<open>encoder_destroy\<close> on an encoder with good
  pointers never faults, also when some slots are null: it destroys the instances of the
  non-null slots in ascending slot order, then frees the array, the runtime record and the
  encoder record, and all of these are gone afterwards. Every encoder that
  \<^verbatim>\<open>encoder_prepare\<close> leaves, with all allocations done or with one failed, is such an
  encoder. A second call on the same pointer is a use of freed memory.
\<close>

theorem destroy_releases:
  assumes "lookup h encoder = Some (Encoder e)" and "lookup h (run e) = Some (Runtime r)"
    and "encoder_wf h encoder"
    and "lookup h0 encoder = Some (Encoder e0)" and "lookup h0 (run e0) = Some (Runtime r0)"
    and "enc_type e0 = ENCODER_TYPE_OMX"
  shows "(\<exists>h'. encoder_destroy h encoder
                  = Inr (h', (case omxs r of
                                None \<Rightarrow> []
                              | Some arr \<Rightarrow>
                                  (case lookup h arr of
                                     Some (Omxs xs) \<Rightarrow>
                                       map Omx_encoder_destroy (instances xs) @ [Free arr]
                                   | _ \<Rightarrow> []))
                             @ [Free (run e), Free encoder])
            \<and> lookup h' encoder = None \<and> lookup h' (run e) = None
            \<and> (case omxs r of
                  None \<Rightarrow> True
                | Some arr \<Rightarrow>
                    lookup h' arr = None
                    \<and> (case lookup h arr of
                         Some (Omxs xs) \<Rightarrow> list_all (\<lambda>p. lookup h' p = None) (instances xs)
                       | _ \<Rightarrow> True))
            \<and> encoder_destroy h' encoder = Inl Invalid_pointer)
       \<and> (\<exists>dev1 h1 es1 h2 es2.
             encoder_prepare omx_max init_ok h0 encoder dev = Inr (dev1, h1, es1)
             \<and> encoder_destroy h1 encoder = Inr (h2, es2))"
proof -
  from destroy_result [OF assms(1,2,3)]
  obtain h' where d: "encoder_destroy h encoder
                  = Inr (h', (case omxs r of
                                None \<Rightarrow> []
                              | Some arr \<Rightarrow>
                                  (case lookup h arr of
                                     Some (Omxs xs) \<Rightarrow>
                                       map Omx_encoder_destroy (instances xs) @ [Free arr]
                                   | _ \<Rightarrow> []))
                             @ [Free (run e), Free encoder])"
    and g: "lookup h' encoder = None \<and> lookup h' (run e) = None
            \<and> (case omxs r of
                  None \<Rightarrow> True
                | Some arr \<Rightarrow>
                    lookup h' arr = None
                    \<and> (case lookup h arr of
                         Some (Omxs xs) \<Rightarrow> list_all (\<lambda>p. lookup h' p = None) (instances xs)
                       | _ \<Rightarrow> True))"
    by blast
  note t = destroy_twice [OF d]
  let ?n = "if n_workers dev > omx_max then omx_max else n_workers dev"
  from prepare_hardware_result [OF assms(4,5,6),
      where omx_max = omx_max and dev = dev and init_ok = init_ok]
  obtain h1 es1 xs where
    p: "encoder_prepare omx_max init_ok h0 encoder dev = Inr (dev\<lparr>n_workers := ?n\<rparr>, h1, es1)"
    and e1: "lookup h1 encoder = Some (Encoder e0)"
    and r1: "lookup h1 (run e0)
               = Some (Runtime (r0\<lparr>run_type := (if \<forall>i < unat ?n. init_ok i
                                                   then ENCODER_TYPE_OMX else ENCODER_TYPE_CPU),
                                     n_omxs := ?n, omxs := Some (length h0)\<rparr>))"
    and a: "lookup h1 (length h0) = Some (Omxs xs)" "length xs = unat ?n"
    and i: "instances xs = [Suc (length h0)..<length h1]"
    and new: "\<forall>a. Suc (length h0) \<le> a \<and> a < length h1 \<longrightarrow> lookup h1 a = Some Omx"
    by blast
  have wf: "encoder_wf h1 encoder"
    using e1 r1 _ a(1) _ i new by (rule prepare_wf) (simp_all add: a(2))
  from destroy_result [OF e1 r1 wf] obtain h2 es2 where "encoder_destroy h1 encoder = Inr (h2, es2)"
    by blast
  with p d g t show ?thesis
    by blast
qed

theorem destroy_releases_witness:
  "lookup heap_partial 1 = Some (Encoder \<lparr>enc_type = ENCODER_TYPE_OMX, quality = 80, run = 0\<rparr>)
   \<and> encoder_wf heap_partial 1
   \<and> lookup heap_selected 1 = Some (Encoder \<lparr>enc_type = ENCODER_TYPE_OMX, quality = 80, run = 0\<rparr>)
   \<and> encoder_destroy heap_partial 1
       = Inr ([None, None, None, None], [Omx_encoder_destroy 3, Free 2, Free 0, Free 1])
   \<and> encoder_destroy heap_omx 1
       = Inr ([None, None, None, None, None],
              [Omx_encoder_destroy 3, Omx_encoder_destroy 4, Free 2, Free 0, Free 1])
   \<and> (\<exists>h'. encoder_destroy heap_partial 1
               = Inr (h', [Omx_encoder_destroy 3, Free 2, Free 0, Free 1])
          \<and> encoder_destroy h' 1 = Inl Invalid_pointer)"
proof -
  have p: "lookup heap_partial 1 = Some (Encoder \<lparr>enc_type = ENCODER_TYPE_OMX, quality = 80, run = 0\<rparr>)"
    "lookup heap_partial (run \<lparr>enc_type = ENCODER_TYPE_OMX, quality = 80, run = 0\<rparr>)
       = Some (Runtime \<lparr>run_type = ENCODER_TYPE_CPU, n_omxs = 3, omxs = Some 2\<rparr>)"
    "encoder_wf heap_partial 1"
    by code_simp+
  have s: "lookup heap_selected 1 = Some (Encoder \<lparr>enc_type = ENCODER_TYPE_OMX, quality = 80, run = 0\<rparr>)"
    "lookup heap_selected (run \<lparr>enc_type = ENCODER_TYPE_OMX, quality = 80, run = 0\<rparr>)
       = Some (Runtime \<lparr>run_type = ENCODER_TYPE_CPU, n_omxs = 0, omxs = None\<rparr>)"
    "enc_type \<lparr>enc_type = ENCODER_TYPE_OMX, quality = 80, run = 0\<rparr> = ENCODER_TYPE_OMX"
    by (simp_all add: heap_selected_def lookup_def)
  have l: "lookup heap_partial 2 = Some (Omxs [Some 3, None, None])"
    by code_simp
  have c: "encoder_destroy heap_partial 1
       = Inr ([None, None, None, None], [Omx_encoder_destroy 3, Free 2, Free 0, Free 1])"
    "encoder_destroy heap_omx 1
       = Inr ([None, None, None, None, None],
              [Omx_encoder_destroy 3, Omx_encoder_destroy 4, Free 2, Free 0, Free 1])"
    by code_simp+
  from destroy_releases [OF p s, where omx_max = 3 and dev = "\<lparr>n_workers = 2\<rparr>"
      and init_ok = "\<lambda>i. True"] l
  have "\<exists>h'. encoder_destroy heap_partial 1
               = Inr (h', [Omx_encoder_destroy 3, Free 2, Free 0, Free 1])
          \<and> encoder_destroy h' 1 = Inl Invalid_pointer"
    by auto
  with p(1,3) s(1) c show ?thesis
    by blast
qed

end
